theory Spec2Isabelle
  imports Main
begin

section \<open>Go strings, as byte lists\<close>

text \<open>
  A Go string is a sequence of bytes; \<^typ>\<open>string\<close> (a list of 8-bit characters) is the
  same thing. The functions of package \<^verbatim>\<open>strings\<close> that the client calls are written
  out below on bytes, with UTF-8 made explicit where Go decodes runes.
\<close>

definition HasPrefix :: "string \<Rightarrow> string \<Rightarrow> bool" where
  "HasPrefix s p = (take (length p) s = p)"

definition HasSuffix :: "string \<Rightarrow> string \<Rightarrow> bool" where
  "HasSuffix s x = (length x \<le> length s \<and> drop (length s - length x) s = x)"

definition TrimPrefix :: "string \<Rightarrow> string \<Rightarrow> string" where
  "TrimPrefix s p = (if HasPrefix s p then drop (length p) s else s)"

text \<open>\<^verbatim>\<open>strings.Index\<close>: the first position at which \<open>sep\<close> starts, if any.\<close>

fun Index :: "string \<Rightarrow> string \<Rightarrow> nat option" where
  "Index [] sep = (if sep = [] then Some 0 else None)"
| "Index (c # cs) sep =
     (if HasPrefix (c # cs) sep then Some 0 else map_option Suc (Index cs sep))"

text \<open>
  \<^verbatim>\<open>strings.Split(s, sep)\<close> cuts at every occurrence of \<open>sep\<close>, left to right, and always
  returns at least one piece (\<^verbatim>\<open>Split("", ",")\<close> is the one-element list of the empty
  string). The client only ever splits at \<^verbatim>\<open>","\<close>; for the empty separator Go cuts after
  every UTF-8 sequence, which is written here for single bytes.
\<close>

function Split :: "string \<Rightarrow> string \<Rightarrow> string list" where
  "Split s sep =
     (if sep = [] then map (\<lambda>c. [c]) s
      else (case Index s sep of
              None \<Rightarrow> [s]
            | Some m \<Rightarrow> take m s # Split (drop (m + length sep) s) sep))"
  by pat_completeness auto

lemma Index_bound: "Index s sep = Some m \<Longrightarrow> m + length sep \<le> length s"
proof (induction s arbitrary: m)
  case Nil
  then show ?case by (simp split: if_splits)
next
  case (Cons c cs)
  show ?case
  proof (cases "HasPrefix (c # cs) sep")
    case True
    then have "length (take (length sep) (c # cs)) = length sep"
      by (simp add: HasPrefix_def)
    then have "length sep \<le> length (c # cs)"
      by simp
    with True Cons.prems show ?thesis by simp
  next
    case False
    with Cons.prems obtain k where "Index cs sep = Some k" "m = Suc k"
      by auto
    with Cons.IH show ?thesis by fastforce
  qed
qed

termination Split
proof (relation "measure (\<lambda>(s, sep). length s)")
  show "wf (measure (\<lambda>(s, sep). length s))" by simp
next
  fix s sep :: string and m
  assume "sep \<noteq> []" "Index s sep = Some m"
  then have "m + length sep \<le> length s" "0 < length sep"
    using Index_bound [of s sep m] by simp_all
  then have "length s - (m + length sep) < length s"
    by arith
  then show "((drop (m + length sep) s, sep), (s, sep)) \<in> measure (\<lambda>(s, sep). length s)"
    by simp
qed

declare Split.simps [simp del]

text \<open>\<^verbatim>\<open>strings.Join\<close>.\<close>

fun Join :: "string list \<Rightarrow> string \<Rightarrow> string" where
  "Join [] sep = []"
| "Join [x] sep = x"
| "Join (x # y # ys) sep = x @ sep @ Join (y # ys) sep"

text \<open>
  \<^verbatim>\<open>strings.TrimSpace\<close> removes leading and trailing runes for which
  \<^verbatim>\<open>unicode.IsSpace\<close> holds: the six ASCII ones, U+0085 and U+00A0, and the characters with
  the White_Space property. Only a well-formed shortest UTF-8 encoding decodes to such a
  rune, so a space at either end is exactly one of the byte sequences listed here.
\<close>

definition asciiSpace :: "char \<Rightarrow> bool" where
  "asciiSpace c = List.member [CHR 0x09, CHR 0x0A, CHR 0x0B, CHR 0x0C, CHR 0x0D, CHR 0x20] c"

definition unicodeSpaces :: "string list" where
  "unicodeSpaces =
     [[CHR 0xC2, CHR 0x85], [CHR 0xC2, CHR 0xA0], [CHR 0xE1, CHR 0x9A, CHR 0x80],
      [CHR 0xE2, CHR 0x80, CHR 0x80], [CHR 0xE2, CHR 0x80, CHR 0x81],
      [CHR 0xE2, CHR 0x80, CHR 0x82], [CHR 0xE2, CHR 0x80, CHR 0x83],
      [CHR 0xE2, CHR 0x80, CHR 0x84], [CHR 0xE2, CHR 0x80, CHR 0x85],
      [CHR 0xE2, CHR 0x80, CHR 0x86], [CHR 0xE2, CHR 0x80, CHR 0x87],
      [CHR 0xE2, CHR 0x80, CHR 0x88], [CHR 0xE2, CHR 0x80, CHR 0x89],
      [CHR 0xE2, CHR 0x80, CHR 0x8A], [CHR 0xE2, CHR 0x80, CHR 0xA8],
      [CHR 0xE2, CHR 0x80, CHR 0xA9], [CHR 0xE2, CHR 0x80, CHR 0xAF],
      [CHR 0xE2, CHR 0x81, CHR 0x9F], [CHR 0xE3, CHR 0x80, CHR 0x80]]"

text \<open>The width in bytes of the space rune a string starts with, 0 when it starts with none.\<close>

definition leadingSpace :: "string \<Rightarrow> nat" where
  "leadingSpace s =
     (case s of
        [] \<Rightarrow> 0
      | c # _ \<Rightarrow>
          if asciiSpace c then 1
          else (case find (HasPrefix s) unicodeSpaces of None \<Rightarrow> 0 | Some e \<Rightarrow> length e))"

text \<open>The same at the end of the string (Go decodes the last rune backwards).\<close>

definition trailingSpace :: "string \<Rightarrow> nat" where
  "trailingSpace s =
     (case rev s of
        [] \<Rightarrow> 0
      | c # _ \<Rightarrow>
          if asciiSpace c then 1
          else (case find (HasSuffix s) unicodeSpaces of None \<Rightarrow> 0 | Some e \<Rightarrow> length e))"

function TrimLeftSpace :: "string \<Rightarrow> string" where
  "TrimLeftSpace s =
     (if leadingSpace s = 0 \<or> s = [] then s else TrimLeftSpace (drop (leadingSpace s) s))"
  by pat_completeness auto
termination
  by (relation "measure length") auto

function TrimRightSpace :: "string \<Rightarrow> string" where
  "TrimRightSpace s =
     (if trailingSpace s = 0 \<or> s = [] then s
      else TrimRightSpace (take (length s - trailingSpace s) s))"
  by pat_completeness auto
termination
  by (relation "measure length") auto

declare TrimLeftSpace.simps [simp del] TrimRightSpace.simps [simp del]

definition TrimSpace :: "string \<Rightarrow> string" where
  "TrimSpace s = TrimRightSpace (TrimLeftSpace s)"

text \<open>
  \<^verbatim>\<open>strings.EqualFold\<close> compares under Unicode simple case folding. The client calls it
  with the second argument \<^verbatim>\<open>"Authorization"\<close> only; no letter of that word folds to a
  rune outside ASCII (only k and s do), so there the comparison is equality up to the case
  of the ASCII letters, which is what is written here.
\<close>

definition toLowerASCII :: "char \<Rightarrow> char" where
  "toLowerASCII c =
     (if of_char c \<ge> (65::nat) \<and> of_char c \<le> (90::nat) then char_of (of_char c + (32::nat)) else c)"

definition toUpperASCII :: "char \<Rightarrow> char" where
  "toUpperASCII c =
     (if of_char c \<ge> (97::nat) \<and> of_char c \<le> (122::nat) then char_of (of_char c - (32::nat)) else c)"

definition EqualFold :: "string \<Rightarrow> string \<Rightarrow> bool" where
  "EqualFold s t = (map toLowerASCII s = map toLowerASCII t)"

section \<open>HTTP messages\<close>

text \<open>
  \<^verbatim>\<open>http.Header\<close> is a map from canonical keys to lists of values. \<^verbatim>\<open>Add\<close>, \<^verbatim>\<open>Set\<close> and
  \<^verbatim>\<open>Get\<close> canonicalise the key they are given (\<^verbatim>\<open>textproto.CanonicalMIMEHeaderKey\<close>: a key
  made of token bytes only gets an upper-case first letter and an upper-case letter after
  every dash, all other letters lower-case; any other key is left as it is). Indexing the
  map directly, as \<^verbatim>\<open>CheckScopes\<close> does, uses the key as written.
\<close>

type_synonym Header = "string \<rightharpoonup> string list"

definition validHeaderFieldByte :: "char \<Rightarrow> bool" where
  "validHeaderFieldByte c =
     (let n = (of_char c :: nat) in
      (48 \<le> n \<and> n \<le> 57) \<or> (65 \<le> n \<and> n \<le> 90) \<or> (97 \<le> n \<and> n \<le> 122) \<or>
      List.member ''!#$%&*+-.^_`|~'' c \<or> n = 39)"

fun canonicalLetters :: "bool \<Rightarrow> string \<Rightarrow> string" where
  "canonicalLetters upper [] = []"
| "canonicalLetters upper (c # cs) =
     (let c' = (if upper then toUpperASCII c else toLowerASCII c)
      in c' # canonicalLetters (c' = CHR ''-'') cs)"

definition CanonicalMIMEHeaderKey :: "string \<Rightarrow> string" where
  "CanonicalMIMEHeaderKey s =
     (if list_all validHeaderFieldByte s then canonicalLetters True s else s)"

definition Header_Add :: "Header \<Rightarrow> string \<Rightarrow> string \<Rightarrow> Header" where
  "Header_Add h key v =
     (let k = CanonicalMIMEHeaderKey key
      in h(k \<mapsto> (case h k of None \<Rightarrow> [] | Some vs \<Rightarrow> vs) @ [v]))"

definition Header_Set :: "Header \<Rightarrow> string \<Rightarrow> string \<Rightarrow> Header" where
  "Header_Set h key v = h(CanonicalMIMEHeaderKey key \<mapsto> [v])"

definition Header_Get :: "Header \<Rightarrow> string \<Rightarrow> string" where
  "Header_Get h key =
     (case h (CanonicalMIMEHeaderKey key) of
        None \<Rightarrow> []
      | Some [] \<Rightarrow> []
      | Some (v # _) \<Rightarrow> v)"

text \<open>
  Package \<^verbatim>\<open>net/url\<close> is not part of the repository. A parsed URL is kept as the text it
  was parsed from together with what its \<^verbatim>\<open>Hostname()\<close> method returns; the parser itself
  is a parameter of the functions that build requests (\<open>NewRequest\<close> and \<open>BasicAuth\<close>
  below).
\<close>

record URL =
  Text :: string
  Hostname :: string

record Request =
  Method :: string
  URL :: URL
  Header :: Header
  Body :: "string option"

text \<open>
  A response's body is represented by the outcome of \<^verbatim>\<open>ioutil.ReadAll\<close> on it: the bytes,
  or the text of the read error.
\<close>

record Response =
  StatusCode :: int
  Header :: Header
  Body :: "string + string"
  Request :: Request

definition ioutil_ReadAll :: "string + string \<Rightarrow> string + string" where
  "ioutil_ReadAll body = body"

section \<open>Error taxonomy\<close>

record GraphQLError =
  Type :: string
  Path :: "string list"
  Message :: string

record HTTPError =
  StatusCode :: int
  RequestURL :: URL
  Message :: string

text \<open>
  A Go \<^verbatim>\<open>error\<close> value is one of the two taxonomy types, any other error (kept by its
  message), or the \<^verbatim>\<open>*url.Error\<close> that \<^verbatim>\<open>http.Client.Do\<close> wraps around an error of the
  transport or of its redirect handling. \<open>RuntimePanic\<close> is not an error value of Go: it
  stands for a call that does not return because the goroutine panics, so that a panic is
  an outcome of its own and never reads as a return without error.
\<close>

datatype error =
    HTTPError HTTPError
  | GraphQLErrorResponse "GraphQLError list"
  | OtherError string
  | ClientDoError error
  | RuntimePanic string

text \<open>\<^verbatim>\<open>GraphQLErrorResponse.Error()\<close>.\<close>

definition GraphQLErrorResponse_Error :: "GraphQLError list \<Rightarrow> string" where
  "GraphQLErrorResponse_Error errors =
     ''GraphQL error: '' @ Join (map GraphQLError.Message errors) [CHR 0x0A]"

section \<open>What the client takes from Go's standard library\<close>

text \<open>
  Packages \<^verbatim>\<open>net/http\<close>, \<^verbatim>\<open>net/url\<close> and \<^verbatim>\<open>encoding/json\<close> are not part of the
  repository. What the client needs of them is a parameter, \<open>lib\<close>:
  \<^item> \<open>NewRequest method url\<close>, for \<^verbatim>\<open>http.NewRequest\<close>, which checks the method and parses
    the URL: the error, or else what \<^verbatim>\<open>Hostname()\<close> returns on the parsed URL;
  \<^item> \<open>BasicAuth url\<close>: when the parsed URL carries userinfo (\<^verbatim>\<open>user:password@\<close>), the value
    \<^verbatim>\<open>"Basic " + base64(user:password)\<close> that \<^verbatim>\<open>http.Client\<close> sends for it;
  \<^item> \<open>Redirect via res\<close>, the redirect handling of \<^verbatim>\<open>http.Client.Do\<close> short of its limit on
    the number of hops: \<open>via\<close> are the requests made so far, the latest last, and \<open>res\<close>
    the response to the latest; the result is nothing when the response is returned to the
    caller, or else the next request (method, URL resolved against \<^verbatim>\<open>Location\<close>, headers
    copied from the first request, \<^verbatim>\<open>Referer\<close>) or the error of building it;
  \<^item> \<open>Marshal\<close>, for \<^verbatim>\<open>json.Marshal\<close> of the GraphQL request;
  \<^item> \<^verbatim>\<open>json.Unmarshal\<close> at the three targets the client decodes into. Each decoder returns
    the error, if any, and the target as the call leaves it: \<open>Unmarshal_message\<close>, the
    field \<^verbatim>\<open>Message\<close> of \<^verbatim>\<open>struct{Message string `json:"message"`}\<close>, starting from the zero
    value; \<open>Unmarshal_graphQLResponse\<close>, the \<^verbatim>\<open>*graphQLResponse\<close> whose \<^verbatim>\<open>Data\<close> holds the
    caller's target (\<open>Data\<close> below is the state of that target), or nothing when the
    decoder leaves the pointer nil, which it does for the body \<^verbatim>\<open>null\<close>; and
    \<open>Unmarshal_data\<close>, the caller's target itself.
\<close>

record 'a graphQLResponse =
  Data :: 'a
  Errors :: "GraphQLError list"

record ('a, 'v) stdlib =
  NewRequest :: "string \<Rightarrow> string \<Rightarrow> error + string"
  BasicAuth :: "string \<Rightarrow> string option"
  Redirect :: "Request list \<Rightarrow> Response \<Rightarrow> (error + Request) option"
  Marshal :: "string \<Rightarrow> 'v \<Rightarrow> error + string"
  Unmarshal_message :: "string \<Rightarrow> error option \<times> string"
  Unmarshal_graphQLResponse ::
    "string \<Rightarrow> 'a graphQLResponse \<Rightarrow> error option \<times> 'a graphQLResponse option"
  Unmarshal_data :: "string \<Rightarrow> 'a \<Rightarrow> error option \<times> 'a"

text \<open>\<^verbatim>\<open>os.Getenv\<close>: the value of the variable, empty when it is not set.\<close>

definition Getenv :: "(string \<rightharpoonup> string) \<Rightarrow> string \<Rightarrow> string" where
  "Getenv env key = (case env key of None \<Rightarrow> [] | Some v \<Rightarrow> v)"

section \<open>Transports and the process state\<close>

text \<open>
  A round trip returns Go's pair \<^verbatim>\<open>(res, err)\<close>: a response and no error, or an error
  together with a response or without one. (\<^verbatim>\<open>http.RoundTripper\<close> forbids the pair of two
  nils.)
\<close>

datatype RoundTripResult =
    Responded Response
  | Failed "Response option" error

text \<open>
  The state of the process: the package-level variable \<^verbatim>\<open>issuedScopesWarning\<close>, and
  everything outside the package (network, token store, terminal), \<open>world\<close>. Two fields
  are bookkeeping that no code reads: \<open>cbCalls\<close> lists the arguments of every call of a
  \<^verbatim>\<open>CheckScopes\<close> callback, in order, and \<open>sent\<close> lists the requests that the clients
  built here hand to \<^verbatim>\<open>http.DefaultTransport\<close>.
\<close>

record 'w process =
  issuedScopesWarning :: bool
  cbCalls :: "string list"
  sent :: "Request list"
  world :: 'w

type_synonym 'w RoundTripper = "Request \<Rightarrow> 'w process \<Rightarrow> RoundTripResult \<times> 'w process"

type_synonym 'w ClientOption = "'w RoundTripper \<Rightarrow> 'w RoundTripper"

text \<open>\<^verbatim>\<open>http.DefaultTransport\<close>: the request goes to the network, whose behaviour is \<open>net\<close>.\<close>

definition DefaultTransport ::
  "(Request \<Rightarrow> 'w \<Rightarrow> RoundTripResult \<times> 'w) \<Rightarrow> 'w RoundTripper" where
  "DefaultTransport net req st =
     (case net req (world st) of
        (r, w') \<Rightarrow> (r, st\<lparr>sent := sent st @ [req], world := w'\<rparr>))"

text \<open>\<^verbatim>\<open>NewHTTPClient\<close>: every option wraps what the options before it built.\<close>

definition NewHTTPClient ::
  "(Request \<Rightarrow> 'w \<Rightarrow> RoundTripResult \<times> 'w) \<Rightarrow> 'w ClientOption list \<Rightarrow> 'w RoundTripper" where
  "NewHTTPClient net opts = foldl (\<lambda>tr opt. opt tr) (DefaultTransport net) opts"

text \<open>
  \<^verbatim>\<open>http.Client.Do\<close>, for a client that sets nothing but its transport. Every request it
  sends first gets \<^verbatim>\<open>Authorization: Basic ...\<close> from the userinfo of its URL, unless it
  carries an \<^verbatim>\<open>Authorization\<close> header already, and then goes through the transport. A
  response that redirects is followed with the next request, through the same transport,
  until a response is returned, an error occurs, or ten requests have been made.
\<close>

definition withBasicAuth :: "('a, 'v) stdlib \<Rightarrow> Request \<Rightarrow> Request" where
  "withBasicAuth lib req =
     (case BasicAuth lib (Text (URL req)) of
        None \<Rightarrow> req
      | Some v \<Rightarrow>
          if Header_Get (Request.Header req) ''Authorization'' = []
          then req\<lparr>Request.Header := Header_Set (Request.Header req) ''Authorization'' v\<rparr>
          else req)"

function doHops ::
  "('a, 'v) stdlib \<Rightarrow> 'w RoundTripper \<Rightarrow> Request list \<Rightarrow> Request \<Rightarrow> 'w process \<Rightarrow>
   (error + Response) \<times> 'w process" where
  "doHops lib tr via req st =
     (case tr (withBasicAuth lib req) st of
        (Failed _ err, st') \<Rightarrow> (Inl (ClientDoError err), st')
      | (Responded res, st') \<Rightarrow>
          (case Redirect lib (via @ [req]) res of
             None \<Rightarrow> (Inr res, st')
           | Some (Inl err) \<Rightarrow> (Inl (ClientDoError err), st')
           | Some (Inr next) \<Rightarrow>
               if length (via @ [req]) \<ge> 10
               then (Inl (ClientDoError (OtherError ''stopped after 10 redirects'')), st')
               else doHops lib tr (via @ [req]) next st'))"
  by pat_completeness auto
termination
  by (relation "measure (\<lambda>(lib, tr, via, req, st). 10 - length via)") auto

declare doHops.simps [simp del]

definition Do ::
  "('a, 'v) stdlib \<Rightarrow> 'w RoundTripper \<Rightarrow> Request \<Rightarrow> 'w process \<Rightarrow>
   (error + Response) \<times> 'w process" where
  "Do lib tr req st = doHops lib tr [] req st"

section \<open>Decorators\<close>

definition AddHeader :: "string \<Rightarrow> string \<Rightarrow> 'w ClientOption" where
  "AddHeader name val tr req st =
     (if \<not> EqualFold name ''Authorization'' \<or> HasSuffix (Hostname (URL req)) ''.github.com''
      then tr (req\<lparr>Request.Header := Header_Add (Request.Header req) name val\<rparr>) st
      else tr req st)"

text \<open>The value function is evaluated at send time; it reads the world (the current token).\<close>

definition AddHeaderFunc :: "string \<Rightarrow> ('w \<Rightarrow> string) \<Rightarrow> 'w ClientOption" where
  "AddHeaderFunc name val tr req st =
     (if \<not> EqualFold name ''Authorization'' \<or> HasSuffix (Hostname (URL req)) ''.github.com''
      then tr (req\<lparr>Request.Header := Header_Add (Request.Header req) name (val (world st))\<rparr>) st
      else tr req st)"

definition ReplaceTripper :: "'w RoundTripper \<Rightarrow> 'w ClientOption" where
  "ReplaceTripper tr = (\<lambda>_. tr)"

definition httpOAuthAppID :: string where
  "httpOAuthAppID = ''X-Oauth-Client-Id''"

definition httpOAuthScopes :: string where
  "httpOAuthScopes = ''X-Oauth-Scopes''"

definition wantedCandidates :: "string \<Rightarrow> string list" where
  "wantedCandidates wantedScope =
     (if HasPrefix wantedScope ''read:''
      then [wantedScope, ''admin:'' @ TrimPrefix wantedScope ''read:'']
      else [wantedScope])"

text \<open>
  The labelled loop of \<^verbatim>\<open>CheckScopes\<close>: \<open>anyCandidate\<close> is the inner loop over the
  candidates for one granted scope, \<open>hasWanted\<close> the outer loop, left at the first match.
\<close>

fun anyCandidate :: "string list \<Rightarrow> string \<Rightarrow> bool" where
  "anyCandidate [] s = False"
| "anyCandidate (w # ws) s = (if w = TrimSpace s then True else anyCandidate ws s)"

fun hasWanted :: "string list \<Rightarrow> string list \<Rightarrow> bool" where
  "hasWanted cands [] = False"
| "hasWanted cands (s # ss) = (if anyCandidate cands s then True else hasWanted cands ss)"

text \<open>
  The callback runs on the world and returns its error, if any. A failing callback leaves
  \<^verbatim>\<open>issuedScopesWarning\<close> as it was: the assignment comes after the early return.
\<close>

definition CheckScopes ::
  "string \<Rightarrow> (string \<Rightarrow> 'w \<Rightarrow> error option \<times> 'w) \<Rightarrow> 'w ClientOption" where
  "CheckScopes wantedScope cb tr req st =
     (case tr req st of
        (Failed res err, st1) \<Rightarrow> (Failed res err, st1)
      | (Responded res, st1) \<Rightarrow>
          if Response.StatusCode res > 299 \<or> issuedScopesWarning st1 then (Responded res, st1)
          else if Response.Header res httpOAuthAppID = None then (Responded res, st1)
          else
            let appID = Header_Get (Response.Header res) httpOAuthAppID;
                hasScopes = Split (Header_Get (Response.Header res) httpOAuthScopes) '',''
            in if \<not> hasWanted (wantedCandidates wantedScope) hasScopes
               then (case cb appID (world st1) of
                       (Some err, w') \<Rightarrow>
                         (Failed (Some res) err,
                          st1\<lparr>cbCalls := cbCalls st1 @ [appID], world := w'\<rparr>)
                     | (None, w') \<Rightarrow>
                         (Responded res,
                          st1\<lparr>issuedScopesWarning := True,
                              cbCalls := cbCalls st1 @ [appID], world := w'\<rparr>))
               else (Responded res, st1))"

section \<open>The API client\<close>

text \<open>The client is its transport.\<close>

definition contentType :: string where
  "contentType = ''application/json; charset=utf-8''"

text \<open>The request \<^verbatim>\<open>http.NewRequest\<close> returns, with the \<^verbatim>\<open>Content-Type\<close> the client sets.\<close>

definition newJSONRequest :: "string \<Rightarrow> string \<Rightarrow> string \<Rightarrow> string option \<Rightarrow> Request" where
  "newJSONRequest method url host body =
     \<lparr>Method = (if method = [] then ''GET'' else method),
      URL = \<lparr>Text = url, Hostname = host\<rparr>,
      Header = Header_Set Map.empty ''Content-Type'' contentType, Body = body\<rparr>"

definition handleHTTPError :: "('a, 'v) stdlib \<Rightarrow> Response \<Rightarrow> error" where
  "handleHTTPError lib resp =
     (let httpError = \<lparr>StatusCode = Response.StatusCode resp,
                       RequestURL = URL (Request resp), Message = []\<rparr>
      in case ioutil_ReadAll (Response.Body resp) of
           Inl err \<Rightarrow> HTTPError (httpError\<lparr>HTTPError.Message := err\<rparr>)
         | Inr body \<Rightarrow>
             (case Unmarshal_message lib body of
                (None, message) \<Rightarrow> HTTPError (httpError\<lparr>HTTPError.Message := message\<rparr>)
              | (Some _, _) \<Rightarrow> HTTPError httpError))"

text \<open>
  \<^verbatim>\<open>handleResponse\<close> returns its error together with the caller's target as the call
  leaves it (\<^verbatim>\<open>data\<close> is a pointer in Go; the decoder writes through it). When the decoder
  returns no error and leaves \<^verbatim>\<open>gr\<close> nil, \<^verbatim>\<open>len(gr.Errors)\<close> dereferences a nil pointer.
\<close>

definition handleResponse :: "('a, 'v) stdlib \<Rightarrow> Response \<Rightarrow> 'a \<Rightarrow> error option \<times> 'a" where
  "handleResponse lib resp data =
     (let success = (Response.StatusCode resp \<ge> 200 \<and> Response.StatusCode resp < 300)
      in if \<not> success then (Some (handleHTTPError lib resp), data)
         else (case ioutil_ReadAll (Response.Body resp) of
                 Inl err \<Rightarrow> (Some (OtherError err), data)
               | Inr body \<Rightarrow>
                   (case Unmarshal_graphQLResponse lib body \<lparr>Data = data, Errors = []\<rparr> of
                      (Some err, None) \<Rightarrow> (Some err, data)
                    | (Some err, Some gr) \<Rightarrow> (Some err, Data gr)
                    | (None, None) \<Rightarrow> (Some (RuntimePanic ''nil pointer dereference''), data)
                    | (None, Some gr) \<Rightarrow>
                        if length (Errors gr) > 0
                        then (Some (GraphQLErrorResponse (Errors gr)), Data gr)
                        else (None, Data gr))))"

definition GraphQL ::
  "('a, 'v) stdlib \<Rightarrow> (string \<rightharpoonup> string) \<Rightarrow> 'w RoundTripper \<Rightarrow> string \<Rightarrow> 'v \<Rightarrow> 'a \<Rightarrow>
   'w process \<Rightarrow> (error option \<times> 'a) \<times> 'w process" where
  "GraphQL lib env c query variables data st =
     (let gheHostname = Getenv env ''GITHUB_HOST'';
          url = (if gheHostname \<noteq> [] then ''https://'' @ gheHostname @ ''/api/graphql''
                 else ''https://api.github.com/graphql'')
      in case Marshal lib query variables of
           Inl err \<Rightarrow> ((Some err, data), st)
         | Inr reqBody \<Rightarrow>
             (case NewRequest lib ''POST'' url of
                Inl err \<Rightarrow> ((Some err, data), st)
              | Inr host \<Rightarrow>
                  (case Do lib c (newJSONRequest ''POST'' url host (Some reqBody)) st of
                     (Inl err, st') \<Rightarrow> ((Some err, data), st')
                   | (Inr resp, st') \<Rightarrow> (handleResponse lib resp data, st'))))"

definition REST ::
  "('a, 'v) stdlib \<Rightarrow> (string \<rightharpoonup> string) \<Rightarrow> 'w RoundTripper \<Rightarrow> string \<Rightarrow> string \<Rightarrow>
   string option \<Rightarrow> 'a \<Rightarrow> 'w process \<Rightarrow> (error option \<times> 'a) \<times> 'w process" where
  "REST lib env c method p body data st =
     (let gheHostname = Getenv env ''GITHUB_HOST'';
          url = (if gheHostname \<noteq> [] then ''https://'' @ gheHostname @ ''/api/v3/'' @ p
                 else ''https://api.github.com/'' @ p)
      in case NewRequest lib method url of
           Inl err \<Rightarrow> ((Some err, data), st)
         | Inr host \<Rightarrow>
             (case Do lib c (newJSONRequest method url host body) st of
                (Inl err, st') \<Rightarrow> ((Some err, data), st')
              | (Inr resp, st') \<Rightarrow>
                  (let success = (Response.StatusCode resp \<ge> 200 \<and> Response.StatusCode resp < 300)
                   in if \<not> success then ((Some (handleHTTPError lib resp), data), st')
                      else if Response.StatusCode resp = 204 then ((None, data), st')
                      else (case ioutil_ReadAll (Response.Body resp) of
                              Inl err \<Rightarrow> ((Some (OtherError err), data), st')
                            | Inr b \<Rightarrow> (Unmarshal_data lib b data, st')))))"

text \<open>
  The counting loops of \<^verbatim>\<open>HasScopes\<close>: \<open>countWanted\<close> is the inner loop over the wanted
  scopes for one granted scope, \<open>countFound\<close> the outer loop over the granted scopes.
\<close>

fun countWanted :: "string list \<Rightarrow> string \<Rightarrow> nat \<Rightarrow> nat" where
  "countWanted [] s found = found"
| "countWanted (w # ws) s found =
     countWanted ws s (if w = TrimSpace s then found + 1 else found)"

fun countFound :: "string list \<Rightarrow> string list \<Rightarrow> nat \<Rightarrow> nat" where
  "countFound wantedScopes [] found = found"
| "countFound wantedScopes (s # ss) found =
     countFound wantedScopes ss (countWanted wantedScopes s found)"

text \<open>\<^verbatim>\<open>HasScopes\<close> returns whether the scopes are present, the app identifier and the error.\<close>

definition HasScopes ::
  "('a, 'v) stdlib \<Rightarrow> 'w RoundTripper \<Rightarrow> string list \<Rightarrow> 'w process \<Rightarrow>
   (bool \<times> string \<times> error option) \<times> 'w process" where
  "HasScopes lib c wantedScopes st =
     (case NewRequest lib ''GET'' ''https://api.github.com/user'' of
        Inl err \<Rightarrow> ((False, [], Some err), st)
      | Inr host \<Rightarrow>
          (case Do lib c (newJSONRequest ''GET'' ''https://api.github.com/user'' host None) st of
             (Inl err, st') \<Rightarrow> ((False, [], Some err), st')
           | (Inr res, st') \<Rightarrow>
               if Response.StatusCode res \<noteq> 200
               then ((False, [], Some (handleHTTPError lib res)), st')
               else
                 let appID = Header_Get (Response.Header res) ''X-Oauth-Client-Id'';
                     hasScopes = Split (Header_Get (Response.Header res) ''X-Oauth-Scopes'') '','';
                     found = countFound wantedScopes hasScopes 0
                 in if found = length wantedScopes then ((True, appID, None), st')
                    else ((False, appID, None), st')))"

section \<open>What the claims speak of\<close>

text \<open>
  The trimmed tokens of a response's granted-scopes header, and the reading of "the scope
  is granted" in the description of \<^verbatim>\<open>HasScopes\<close>: the scope itself is among them, or the
  scope begins with \<^verbatim>\<open>read:\<close> and its \<^verbatim>\<open>admin:\<close> analog is.
\<close>

definition grantedScopes :: "Response \<Rightarrow> string list" where
  "grantedScopes res =
     map TrimSpace (Split (Header_Get (Response.Header res) ''X-Oauth-Scopes'') '','')"

definition spec_scope_granted :: "string list \<Rightarrow> string \<Rightarrow> bool" where
  "spec_scope_granted granted w =
     (w \<in> set granted \<or>
      (HasPrefix w ''read:'' \<and> (''admin:'' @ TrimPrefix w ''read:'') \<in> set granted))"

text \<open>
  The endpoint rule: the default API host unless the environment names another host, then
  the versioned sub-path for REST and the alternate sub-path for GraphQL on that host.
\<close>

definition restEndpoint :: "(string \<rightharpoonup> string) \<Rightarrow> string \<Rightarrow> string" where
  "restEndpoint env p =
     (if Getenv env ''GITHUB_HOST'' = [] then ''https://api.github.com/'' @ p
      else ''https://'' @ Getenv env ''GITHUB_HOST'' @ ''/api/v3/'' @ p)"

definition graphQLEndpoint :: "(string \<rightharpoonup> string) \<Rightarrow> string" where
  "graphQLEndpoint env =
     (if Getenv env ''GITHUB_HOST'' = [] then ''https://api.github.com/graphql''
      else ''https://'' @ Getenv env ''GITHUB_HOST'' @ ''/api/graphql'')"

text \<open>
  The options a client is built from: header injectors and scope checks. (The logging
  option belongs to another library and hands every request on as it is.)
\<close>

inductive decorator :: "'w ClientOption \<Rightarrow> bool" where
  static: "decorator (AddHeader name val)"
| dynamic: "decorator (AddHeaderFunc name valf)"
| scopes: "decorator (CheckScopes wantedScope cb)"

text \<open>
  \<open>forwarded req req'\<close>: \<open>req'\<close> is \<open>req\<close> as a chain of decorators may hand it on, with
  the same method, URL and body, and, when the host of \<open>req\<close> does not end in the
  service's domain suffix, with the same \<^verbatim>\<open>Authorization\<close> entry.
\<close>

definition forwarded :: "Request \<Rightarrow> Request \<Rightarrow> bool" where
  "forwarded req req' =
     (Method req' = Method req \<and> URL req' = URL req \<and> Request.Body req' = Request.Body req \<and>
      (HasSuffix (Hostname (URL req)) ''.github.com'' \<or>
       Request.Header req' ''Authorization'' = Request.Header req ''Authorization''))"

text \<open>
  A transport relays when every call hands exactly one request to the network, and that
  request is the incoming one as forwarded.
\<close>

definition relays :: "'w RoundTripper \<Rightarrow> bool" where
  "relays tr = (\<forall>req st. \<exists>req'. sent (snd (tr req st)) = sent st @ [req'] \<and> forwarded req req')"

text \<open>A sequence of calls through one transport in one process, with the results in order.\<close>

fun calls :: "'w RoundTripper \<Rightarrow> Request list \<Rightarrow> 'w process \<Rightarrow> RoundTripResult list \<times> 'w process" where
  "calls tr [] st = ([], st)"
| "calls tr (req # reqs) st =
     (case tr req st of
        (r, st1) \<Rightarrow> (case calls tr reqs st1 of (rs, st2) \<Rightarrow> (r # rs, st2)))"

text \<open>
  A transport that leaves the scope-warning flag and the record of callback calls alone
  (the network itself, or header injectors around it).
\<close>

definition neutral :: "'w RoundTripper \<Rightarrow> bool" where
  "neutral tr =
     (\<forall>req st. issuedScopesWarning (snd (tr req st)) = issuedScopesWarning st \<and>
               cbCalls (snd (tr req st)) = cbCalls st)"

text \<open>
  A qualifying result for the wanted scope: a response with status at most 299 that
  carries the app-identifier header and whose granted scopes do not satisfy the wanted
  scope. \<open>firstQualifying\<close> is the app identifier of the first qualifying result of a list.
\<close>

definition qualifying :: "string \<Rightarrow> RoundTripResult \<Rightarrow> bool" where
  "qualifying w r =
     (case r of
        Responded res \<Rightarrow>
          Response.StatusCode res \<le> 299 \<and> Response.Header res httpOAuthAppID \<noteq> None \<and>
          \<not> spec_scope_granted (grantedScopes res) w
      | Failed _ _ \<Rightarrow> False)"

definition appIDOf :: "RoundTripResult \<Rightarrow> string" where
  "appIDOf r =
     (case r of
        Responded res \<Rightarrow> Header_Get (Response.Header res) httpOAuthAppID
      | Failed _ _ \<Rightarrow> [])"

fun firstQualifying :: "string \<Rightarrow> RoundTripResult list \<Rightarrow> string option" where
  "firstQualifying w [] = None"
| "firstQualifying w (r # rs) =
     (if qualifying w r then Some (appIDOf r) else firstQualifying w rs)"

section \<open>A test double of the network and of the library\<close>

text \<open>
  For the concrete runs below: a network that answers every request with one fixed
  status, header and body; a library that gives Go's results on the inputs of the runs;
  and the state of a process that has just started. The library accepts every URL of the
  form \<^verbatim>\<open>https://host/path\<close> or \<^verbatim>\<open>https://user:pw@host/path\<close>, knows the Basic credentials
  of \<^verbatim>\<open>user:pw\<close>, follows a 302 with a \<^verbatim>\<open>Location\<close> by a GET (as \<^verbatim>\<open>net/http\<close> does for a GET
  or POST) and returns every response with another status to the caller.
\<close>

definition serve ::
  "int \<Rightarrow> (string \<times> string list) list \<Rightarrow> string + string \<Rightarrow>
   Request \<Rightarrow> 'w \<Rightarrow> RoundTripResult \<times> 'w" where
  "serve status hdrs body req w =
     (Responded \<lparr>Response.StatusCode = status, Header = map_of hdrs, Body = body,
                 Request = req\<rparr>, w)"

definition hostOf :: "string \<Rightarrow> string" where
  "hostOf url =
     (let authority = takeWhile (\<lambda>c. c \<noteq> CHR ''/'') (drop 8 url)
      in if CHR ''@'' \<in> set authority then tl (dropWhile (\<lambda>c. c \<noteq> CHR ''@'') authority)
         else authority)"

definition followLocation :: "Request list \<Rightarrow> Response \<Rightarrow> (error + Request) option" where
  "followLocation via res =
     (let loc = Header_Get (Response.Header res) ''Location''
      in if Response.StatusCode res = 302 \<and> loc \<noteq> [] \<and> via \<noteq> []
         then Some (Inr \<lparr>Method = ''GET'', URL = \<lparr>Text = loc, Hostname = hostOf loc\<rparr>,
                          Header = Header_Set (Request.Header (hd via)) ''Referer''
                                     (Text (URL (last via))),
                          Body = None\<rparr>)
         else None)"

definition process0 :: "unit process" where
  "process0 = \<lparr>issuedScopesWarning = False, cbCalls = [], sent = [], world = ()\<rparr>"

definition scopesServer :: "string \<Rightarrow> Request \<Rightarrow> unit \<Rightarrow> RoundTripResult \<times> unit" where
  "scopesServer scopes =
     serve 200 [(''X-Oauth-Client-Id'', [''178c6fc778ccc68e1d6a'']),
                (''X-Oauth-Scopes'', [scopes])] (Inr ''{}'')"

text \<open>
  The caller's target in the runs is one string (the field the caller's struct has:
  a login, an id). The decoders give Go's results on the bodies listed and report a
  syntax error on any other. \<^verbatim>\<open>json.Unmarshal\<close> fills the caller's struct through the pointer
  that \<^verbatim>\<open>Data\<close> holds when it meets the member \<^verbatim>\<open>data\<close>, and sets the envelope pointer to
  nil for the body \<^verbatim>\<open>null\<close>.
\<close>

definition exampleLib :: "(string, unit) stdlib" where
  \<open>exampleLib =
     \<lparr>NewRequest = (\<lambda>method url. Inr (hostOf url)),
      BasicAuth = (\<lambda>url. if HasPrefix url ''https://user:pw@'' then Some ''Basic dXNlcjpwdw==''
                           else None),
      Redirect = followLocation,
      Marshal = (\<lambda>query variables. Inr query),
      Unmarshal_message = (\<lambda>body.
         if body = ''{"message":"Not Found"}'' then (None, ''Not Found'')
         else if body = ''{}'' then (None, [])
         else (Some (OtherError ''invalid character''), [])),
      Unmarshal_graphQLResponse = (\<lambda>body gr.
         if body = ''{"data":{"login":"octocat"}}''
         then (None, Some (gr\<lparr>Data := ''octocat''\<rparr>))
         else if body = ''{"errors":[{"message":"Could not resolve."}]}''
         then (None, Some (gr\<lparr>Errors := [\<lparr>Type = [], Path = [], Message = ''Could not resolve.''\<rparr>]\<rparr>))
         else if body = ''{"data":{"login":"octocat"},"errors":[{"message":"a"},{"message":"b"}]}''
         then (None, Some (gr\<lparr>Data := ''octocat'',
                                Errors := [\<lparr>Type = [], Path = [], Message = ''a''\<rparr>,
                                           \<lparr>Type = [], Path = [], Message = ''b''\<rparr>]\<rparr>))
         else if body = ''null'' then (None, None)
         else (Some (OtherError ''invalid character''), Some gr)),
      Unmarshal_data = (\<lambda>body data.
         if body = ''{"id":"X"}'' then (None, ''X'')
         else (Some (OtherError ''invalid character''), data))\<rparr>\<close>

text \<open>
  The options of the command layer's client (\<^verbatim>\<open>apiClientForContext\<close>), with a callback
  that only warns, and an environment that names a self-hosted service.
\<close>

definition exampleOptions :: "unit ClientOption list" where
  "exampleOptions =
     [CheckScopes ''read:org'' (\<lambda>appID w. (None, w)),
      AddHeaderFunc ''Authorization'' (\<lambda>w. ''token 0123abcd''),
      AddHeader ''User-Agent'' ''GitHub CLI 0.10'',
      AddHeader ''Accept'' ''application/vnd.github.antiope-preview+json'']"

definition gheEnv :: "string \<rightharpoonup> string" where
  "gheEnv = [''GITHUB_HOST'' \<mapsto> ''ghe.example.com'']"

text \<open>The same with userinfo in front of the host.\<close>

definition gheUserEnv :: "string \<rightharpoonup> string" where
  "gheUserEnv = [''GITHUB_HOST'' \<mapsto> ''user:pw@ghe.example.com'']"

section \<open>Lemmas on header keys, decorator chains and the scope check\<close>

lemma toLower_toUpper: "toLowerASCII (toUpperASCII c) = toLowerASCII c"
proof (cases "(97::nat) \<le> of_char c \<and> of_char c \<le> (122::nat)")
  case True
  define n :: nat where "n = of_char c"
  have c: "c = char_of n"
    by (simp add: n_def)
  from True have r: "97 \<le> n" "n \<le> 122"
    by (simp_all add: n_def)
  then have m: "(n - 32) mod 256 = n - 32" "n - 32 + 32 = n" "65 \<le> n - 32" "n - 32 \<le> 90"
    by simp_all
  have u: "toUpperASCII c = char_of (n - 32)"
    using r by (simp add: toUpperASCII_def n_def)
  have "toLowerASCII (char_of (n - 32)) = char_of (n - 32 + 32)"
    using m by (simp add: toLowerASCII_def)
  also have "\<dots> = c"
    using m c by simp
  also have "c = toLowerASCII c"
    using r by (simp add: toLowerASCII_def n_def)
  finally show ?thesis
    by (simp add: u)
next
  case False
  then show ?thesis
    by (auto simp: toUpperASCII_def)
qed

lemma toLower_toLower: "toLowerASCII (toLowerASCII c) = toLowerASCII c"
proof (cases "(65::nat) \<le> of_char c \<and> of_char c \<le> (90::nat)")
  case True
  define n :: nat where "n = of_char c"
  from True have r: "65 \<le> n" "n \<le> 90"
    by (simp_all add: n_def)
  then have m: "(n + 32) mod 256 = n + 32" "\<not> n + 32 \<le> 90"
    by simp_all
  have "toLowerASCII c = char_of (n + 32)"
    using r by (simp add: toLowerASCII_def n_def)
  moreover have "toLowerASCII (char_of (n + 32)) = char_of (n + 32)"
    using m by (simp add: toLowerASCII_def)
  ultimately show ?thesis
    by simp
next
  case False
  then show ?thesis
    by (auto simp: toLowerASCII_def)
qed

lemma toLower_canonicalLetters: "map toLowerASCII (canonicalLetters b s) = map toLowerASCII s"
  by (induction s arbitrary: b) (simp_all add: Let_def toLower_toUpper toLower_toLower)

lemma canonical_Authorization:
  assumes "CanonicalMIMEHeaderKey name = ''Authorization''"
  shows "EqualFold name ''Authorization''"
proof (cases "list_all validHeaderFieldByte name")
  case True
  with assms have "canonicalLetters True name = ''Authorization''"
    by (simp add: CanonicalMIMEHeaderKey_def)
  then have "map toLowerASCII name = map toLowerASCII ''Authorization''"
    using toLower_canonicalLetters [of True name] by simp
  then show ?thesis by (simp only: EqualFold_def)
next
  case False
  with assms have "name = ''Authorization''"
    by (simp add: CanonicalMIMEHeaderKey_def)
  then show ?thesis by (simp add: EqualFold_def)
qed

lemma forwarded_refl: "forwarded req req"
  by (simp add: forwarded_def)

lemma forwarded_Header_Add:
  assumes "\<not> EqualFold name ''Authorization'' \<or> HasSuffix (Hostname (URL req)) ''.github.com''"
    and "forwarded (req\<lparr>Request.Header := Header_Add (Request.Header req) name v\<rparr>) req'"
  shows "forwarded req req'"
proof -
  have "CanonicalMIMEHeaderKey name \<noteq> ''Authorization'' \<or> HasSuffix (Hostname (URL req)) ''.github.com''"
    using assms(1) canonical_Authorization by blast
  then show ?thesis
    using assms(2) by (auto simp: forwarded_def Header_Add_def Let_def)
qed

lemma relays_DefaultTransport: "relays (DefaultTransport net)"
  by (auto simp: relays_def DefaultTransport_def forwarded_refl split: prod.splits)

lemma relays_AddHeader: "relays tr \<Longrightarrow> relays (AddHeader name val tr)"
proof -
  assume r: "relays tr"
  show ?thesis
    unfolding relays_def
  proof (intro allI)
    fix req st
    show "\<exists>req'. sent (snd (AddHeader name val tr req st)) = sent st @ [req'] \<and> forwarded req req'"
    proof (cases "\<not> EqualFold name ''Authorization'' \<or> HasSuffix (Hostname (URL req)) ''.github.com''")
      case True
      let ?req1 = "req\<lparr>Request.Header := Header_Add (Request.Header req) name val\<rparr>"
      from r obtain req' where "sent (snd (tr ?req1 st)) = sent st @ [req']" "forwarded ?req1 req'"
        unfolding relays_def by blast
      with True show ?thesis
        using forwarded_Header_Add [of name req val req'] by (auto simp: AddHeader_def)
    next
      case False
      from r obtain req' where "sent (snd (tr req st)) = sent st @ [req']" "forwarded req req'"
        unfolding relays_def by blast
      with False show ?thesis
        by (auto simp: AddHeader_def)
    qed
  qed
qed

lemma relays_AddHeaderFunc: "relays tr \<Longrightarrow> relays (AddHeaderFunc name valf tr)"
proof -
  assume r: "relays tr"
  show ?thesis
    unfolding relays_def
  proof (intro allI)
    fix req st
    show "\<exists>req'. sent (snd (AddHeaderFunc name valf tr req st)) = sent st @ [req'] \<and> forwarded req req'"
    proof (cases "\<not> EqualFold name ''Authorization'' \<or> HasSuffix (Hostname (URL req)) ''.github.com''")
      case True
      let ?req1 = "req\<lparr>Request.Header := Header_Add (Request.Header req) name (valf (world st))\<rparr>"
      from r obtain req' where "sent (snd (tr ?req1 st)) = sent st @ [req']" "forwarded ?req1 req'"
        unfolding relays_def by blast
      with True show ?thesis
        using forwarded_Header_Add [of name req "valf (world st)" req'] by (auto simp: AddHeaderFunc_def)
    next
      case False
      from r obtain req' where "sent (snd (tr req st)) = sent st @ [req']" "forwarded req req'"
        unfolding relays_def by blast
      with False show ?thesis
        by (auto simp: AddHeaderFunc_def)
    qed
  qed
qed

lemma anyCandidate_iff: "anyCandidate cands s = (TrimSpace s \<in> set cands)"
  by (induction cands) auto

lemma hasWanted_iff: "hasWanted cands ss = (\<exists>s\<in>set ss. TrimSpace s \<in> set cands)"
  by (induction ss) (auto simp: anyCandidate_iff)

lemma hasWanted_granted:
  "hasWanted (wantedCandidates w) (Split (Header_Get (Response.Header res) httpOAuthScopes) '','')
     = spec_scope_granted (grantedScopes res) w"
proof -
  let ?ss = "Split (Header_Get (Response.Header res) ''X-Oauth-Scopes'') '',''"
  have "(\<exists>s\<in>set ?ss. TrimSpace s \<in> set (wantedCandidates w)) =
        (\<exists>c\<in>set (wantedCandidates w). c \<in> set (map TrimSpace ?ss))"
    by auto
  also have "\<dots> = spec_scope_granted (map TrimSpace ?ss) w"
    by (simp add: wantedCandidates_def spec_scope_granted_def)
  finally show ?thesis
    by (simp add: hasWanted_iff grantedScopes_def httpOAuthScopes_def)
qed

lemma CheckScopes_Failed:
  "tr req st = (Failed res err, st1) \<Longrightarrow> CheckScopes w cb tr req st = (Failed res err, st1)"
  by (simp add: CheckScopes_def)

lemma CheckScopes_skip:
  assumes "tr req st = (Responded res, st1)"
    and "issuedScopesWarning st1 \<or> \<not> qualifying w (Responded res)"
  shows "CheckScopes w cb tr req st = (Responded res, st1)"
proof -
  have "Response.StatusCode res > 299 \<or> issuedScopesWarning st1 \<or>
        Response.Header res httpOAuthAppID = None \<or>
        hasWanted (wantedCandidates w) (Split (Header_Get (Response.Header res) httpOAuthScopes) '','')"
    using assms(2) unfolding hasWanted_granted by (auto simp: qualifying_def)
  then show ?thesis
    using assms(1) by (auto simp: CheckScopes_def Let_def)
qed

lemma CheckScopes_fire:
  assumes "tr req st = (Responded res, st1)"
    and "\<not> issuedScopesWarning st1" and "qualifying w (Responded res)"
  shows "CheckScopes w cb tr req st =
           (case cb (Header_Get (Response.Header res) httpOAuthAppID) (world st1) of
              (Some err, w') \<Rightarrow>
                (Failed (Some res) err,
                 st1\<lparr>cbCalls := cbCalls st1 @ [Header_Get (Response.Header res) httpOAuthAppID], world := w'\<rparr>)
            | (None, w') \<Rightarrow>
                (Responded res,
                 st1\<lparr>issuedScopesWarning := True,
                     cbCalls := cbCalls st1 @ [Header_Get (Response.Header res) httpOAuthAppID], world := w'\<rparr>))"
proof -
  have c: "\<not> Response.StatusCode res > 299" "Response.Header res httpOAuthAppID \<noteq> None"
    "\<not> hasWanted (wantedCandidates w) (Split (Header_Get (Response.Header res) httpOAuthScopes) '','')"
    using assms(3) unfolding hasWanted_granted by (auto simp: qualifying_def)
  show ?thesis
    unfolding CheckScopes_def assms(1) using c assms(2)
    by (auto simp: Let_def)
qed

lemma CheckScopes_sent: "sent (snd (CheckScopes w cb tr req st)) = sent (snd (tr req st))"
proof -
  obtain r st1 where t: "tr req st = (r, st1)"
    by (cases "tr req st")
  show ?thesis
  proof (cases r)
    case (Failed res err)
    with t show ?thesis by (simp add: CheckScopes_Failed)
  next
    case (Responded res)
    show ?thesis
    proof (cases "issuedScopesWarning st1 \<or> \<not> qualifying w (Responded res)")
      case True
      with t Responded show ?thesis by (simp add: CheckScopes_skip)
    next
      case False
      then have "CheckScopes w cb tr req st =
           (case cb (Header_Get (Response.Header res) httpOAuthAppID) (world st1) of
              (Some err, w') \<Rightarrow>
                (Failed (Some res) err,
                 st1\<lparr>cbCalls := cbCalls st1 @ [Header_Get (Response.Header res) httpOAuthAppID], world := w'\<rparr>)
            | (None, w') \<Rightarrow>
                (Responded res,
                 st1\<lparr>issuedScopesWarning := True,
                     cbCalls := cbCalls st1 @ [Header_Get (Response.Header res) httpOAuthAppID], world := w'\<rparr>))"
        using t Responded CheckScopes_fire by blast
      then show ?thesis
        using t by (cases "cb (Header_Get (Response.Header res) httpOAuthAppID) (world st1)") (auto split: option.splits)
    qed
  qed
qed

lemma relays_CheckScopes: "relays tr \<Longrightarrow> relays (CheckScopes w cb tr)"
  by (simp add: relays_def CheckScopes_sent)

lemma relays_decorator: "decorator opt \<Longrightarrow> relays tr \<Longrightarrow> relays (opt tr)"
  by (induction rule: decorator.induct)
     (simp_all add: relays_AddHeader relays_AddHeaderFunc relays_CheckScopes)

lemma relays_NewHTTPClient: "list_all decorator opts \<Longrightarrow> relays (NewHTTPClient net opts)"
proof (induction opts rule: rev_induct)
  case Nil
  then show ?case by (simp add: NewHTTPClient_def relays_DefaultTransport)
next
  case (snoc opt opts)
  then have "relays (NewHTTPClient net opts)" "decorator opt" by simp_all
  then have "relays (opt (NewHTTPClient net opts))" using relays_decorator by blast
  then show ?case by (simp add: NewHTTPClient_def)
qed

text \<open>
  Through a transport that relays, \<^verbatim>\<open>Do\<close> hands the network its request first (with the
  Basic credentials of the URL, if any), and whatever follows comes after it.
\<close>

lemma doHops_sent:
  assumes "relays tr"
  shows "\<exists>req' more. sent (snd (doHops lib tr via req st)) = sent st @ req' # more \<and>
                     forwarded (withBasicAuth lib req) req'"
proof (induction "10 - length via" arbitrary: via req st)
  case 0
  obtain r st1 where t: "tr (withBasicAuth lib req) st = (r, st1)"
    by (cases "tr (withBasicAuth lib req) st")
  from assms obtain req' where f: "sent (snd (tr (withBasicAuth lib req) st)) = sent st @ [req']"
      "forwarded (withBasicAuth lib req) req'"
    unfolding relays_def by blast
  from 0 have l: "10 \<le> length (via @ [req])"
    by simp
  have "snd (doHops lib tr via req st) = st1"
    using t l by (subst doHops.simps) (simp split: RoundTripResult.splits option.splits sum.splits)
  with f t show ?case
    by simp
next
  case (Suc n)
  obtain r st1 where t: "tr (withBasicAuth lib req) st = (r, st1)"
    by (cases "tr (withBasicAuth lib req) st")
  from assms obtain req' where f: "sent (snd (tr (withBasicAuth lib req) st)) = sent st @ [req']"
      "forwarded (withBasicAuth lib req) req'"
    unfolding relays_def by blast
  from t f(1) have s1: "sent st1 = sent st @ [req']"
    by simp
  show ?case
  proof (cases "\<exists>res next. r = Responded res \<and> Redirect lib (via @ [req]) res = Some (Inr next) \<and>
                           \<not> 10 \<le> length (via @ [req])")
    case True
    then obtain res nxt where c: "r = Responded res"
        "Redirect lib (via @ [req]) res = Some (Inr nxt)" "\<not> 10 \<le> length (via @ [req])"
      by blast
    have d: "doHops lib tr via req st = doHops lib tr (via @ [req]) nxt st1"
      using t c by (subst doHops.simps) simp
    from Suc.hyps(2) have "n = 10 - length (via @ [req])"
      by simp
    from Suc.hyps(1) [OF this, of nxt st1] obtain r2 more2 where
      "sent (snd (doHops lib tr (via @ [req]) nxt st1)) = sent st1 @ r2 # more2"
      by blast
    with d s1 f(2) show ?thesis
      by simp
  next
    case False
    have "snd (doHops lib tr via req st) = st1"
      using t False
      by (subst doHops.simps) (auto split: RoundTripResult.splits option.splits sum.splits)
    with s1 f(2) show ?thesis
      by simp
  qed
qed

lemma Do_sent:
  "relays tr \<Longrightarrow>
   \<exists>req' more. sent (snd (Do lib tr req st)) = sent st @ req' # more \<and>
                forwarded (withBasicAuth lib req) req'"
  unfolding Do_def by (rule doHops_sent)

lemma REST_state:
  assumes "NewRequest lib method (restEndpoint env p) = Inr host"
  shows "snd (REST lib env c method p body data st) =
         snd (Do lib c (newJSONRequest method (restEndpoint env p) host body) st)"
proof (cases "Do lib c (newJSONRequest method (restEndpoint env p) host body) st")
  case (Pair x st')
  have u: "(if Getenv env ''GITHUB_HOST'' \<noteq> []
            then ''https://'' @ Getenv env ''GITHUB_HOST'' @ ''/api/v3/'' @ p
            else ''https://api.github.com/'' @ p) = restEndpoint env p"
    by (simp add: restEndpoint_def)
  show ?thesis
  proof (cases x)
    case (Inl err)
    with Pair assms show ?thesis
      unfolding REST_def Let_def u by simp
  next
    case (Inr resp)
    with Pair assms show ?thesis
      unfolding REST_def Let_def u by (cases "ioutil_ReadAll (Response.Body resp)") simp_all
  qed
qed

lemma GraphQL_state:
  assumes "Marshal lib query variables = Inr reqBody"
    and "NewRequest lib ''POST'' (graphQLEndpoint env) = Inr host"
  shows "snd (GraphQL lib env c query variables data st) =
         snd (Do lib c (newJSONRequest ''POST'' (graphQLEndpoint env) host (Some reqBody)) st)"
proof (cases "Do lib c (newJSONRequest ''POST'' (graphQLEndpoint env) host (Some reqBody)) st")
  case (Pair x st')
  have u: "(if Getenv env ''GITHUB_HOST'' \<noteq> []
            then ''https://'' @ Getenv env ''GITHUB_HOST'' @ ''/api/graphql''
            else ''https://api.github.com/graphql'') = graphQLEndpoint env"
    by (simp add: graphQLEndpoint_def)
  from Pair assms show ?thesis
    unfolding GraphQL_def Let_def u by (cases x) simp_all
qed

lemma newJSONRequest_fields:
  "Method (newJSONRequest method url host body) = (if method = [] then ''GET'' else method)"
  "URL (newJSONRequest method url host body) = \<lparr>Text = url, Hostname = host\<rparr>"
  "Request.Body (newJSONRequest method url host body) = body"
  by (simp_all add: newJSONRequest_def)

lemma canonical_known_keys:
  "CanonicalMIMEHeaderKey ''Content-Type'' = ''Content-Type''"
  "CanonicalMIMEHeaderKey ''Authorization'' = ''Authorization''"
  by code_simp+

lemma newJSONRequest_no_Authorization:
  "Request.Header (newJSONRequest method url host body) ''Authorization'' = None"
  by (simp add: newJSONRequest_def Header_Set_def canonical_known_keys)

lemma withBasicAuth_newJSONRequest:
  "URL (withBasicAuth lib (newJSONRequest method url host body)) = \<lparr>Text = url, Hostname = host\<rparr>"
  "Request.Header (withBasicAuth lib (newJSONRequest method url host body)) ''Authorization''
     = map_option (\<lambda>v. [v]) (BasicAuth lib url)"
proof -
  let ?req = "newJSONRequest method url host body"
  have g: "Header_Get (Request.Header ?req) ''Authorization'' = []"
    using newJSONRequest_no_Authorization [of "method" url host body]
    by (simp add: Header_Get_def canonical_known_keys)
  show "URL (withBasicAuth lib ?req) = \<lparr>Text = url, Hostname = host\<rparr>"
    by (cases "BasicAuth lib url") (simp_all add: withBasicAuth_def newJSONRequest_fields)
  show "Request.Header (withBasicAuth lib ?req) ''Authorization''
          = map_option (\<lambda>v. [v]) (BasicAuth lib url)"
    using g
    by (cases "BasicAuth lib url")
       (simp_all add: withBasicAuth_def newJSONRequest_fields newJSONRequest_no_Authorization
          Header_Set_def canonical_known_keys)
qed

lemma client_first_request:
  assumes "list_all decorator opts"
  shows "\<exists>req more.
           sent (snd (Do lib (NewHTTPClient net opts) (newJSONRequest method url host body) st))
             = sent st @ req # more
           \<and> URL req = \<lparr>Text = url, Hostname = host\<rparr>
           \<and> (HasSuffix host ''.github.com'' \<or>
              Request.Header req ''Authorization'' = map_option (\<lambda>v. [v]) (BasicAuth lib url))"
proof -
  let ?req0 = "withBasicAuth lib (newJSONRequest method url host body)"
  from assms have "relays (NewHTTPClient net opts)"
    by (rule relays_NewHTTPClient)
  then obtain req more where r:
      "sent (snd (Do lib (NewHTTPClient net opts) (newJSONRequest method url host body) st))
         = sent st @ req # more"
      "forwarded ?req0 req"
    using Do_sent by blast
  from r(2) have "URL req = \<lparr>Text = url, Hostname = host\<rparr>"
      "HasSuffix host ''.github.com'' \<or>
       Request.Header req ''Authorization'' = map_option (\<lambda>v. [v]) (BasicAuth lib url)"
    by (auto simp: forwarded_def withBasicAuth_newJSONRequest)
  with r(1) show ?thesis by blast
qed

text \<open>What REST and GraphQL do once the round trip has produced a response.\<close>

lemma REST_on_response:
  assumes "NewRequest lib method (restEndpoint env p) = Inr host"
    and "Do lib c (newJSONRequest method (restEndpoint env p) host body) st = (Inr resp, st')"
  shows "REST lib env c method p body data st =
           (if \<not> (Response.StatusCode resp \<ge> 200 \<and> Response.StatusCode resp < 300)
            then ((Some (handleHTTPError lib resp), data), st')
            else if Response.StatusCode resp = 204 then ((None, data), st')
            else (case ioutil_ReadAll (Response.Body resp) of
                    Inl err \<Rightarrow> ((Some (OtherError err), data), st')
                  | Inr b \<Rightarrow> (Unmarshal_data lib b data, st')))"
proof -
  have u: "(if Getenv env ''GITHUB_HOST'' \<noteq> []
            then ''https://'' @ Getenv env ''GITHUB_HOST'' @ ''/api/v3/'' @ p
            else ''https://api.github.com/'' @ p) = restEndpoint env p"
    by (simp add: restEndpoint_def)
  show ?thesis
    unfolding REST_def Let_def u using assms by simp
qed

lemma GraphQL_on_response:
  assumes "Marshal lib query variables = Inr reqBody"
    and "NewRequest lib ''POST'' (graphQLEndpoint env) = Inr host"
    and "Do lib c (newJSONRequest ''POST'' (graphQLEndpoint env) host (Some reqBody)) st = (Inr resp, st')"
  shows "GraphQL lib env c query variables data st = (handleResponse lib resp data, st')"
proof -
  have u: "(if Getenv env ''GITHUB_HOST'' \<noteq> []
            then ''https://'' @ Getenv env ''GITHUB_HOST'' @ ''/api/graphql''
            else ''https://api.github.com/graphql'') = graphQLEndpoint env"
    by (simp add: graphQLEndpoint_def)
  show ?thesis
    unfolding GraphQL_def Let_def u using assms by simp
qed

lemma handleHTTPError_eq:
  "handleHTTPError lib resp =
     HTTPError \<lparr>StatusCode = Response.StatusCode resp, RequestURL = URL (Request resp),
                Message = (case Response.Body resp of
                             Inl readErr \<Rightarrow> readErr
                           | Inr body \<Rightarrow>
                               (case Unmarshal_message lib body of
                                  (None, m) \<Rightarrow> m
                                | (Some err, m) \<Rightarrow> []))\<rparr>"
proof (cases "Response.Body resp")
  case (Inl readErr)
  then show ?thesis
    by (simp add: handleHTTPError_def ioutil_ReadAll_def)
next
  case (Inr body)
  obtain e m where d: "Unmarshal_message lib body = (e, m)"
    by (cases "Unmarshal_message lib body")
  with Inr show ?thesis
    by (cases e) (simp_all add: handleHTTPError_def ioutil_ReadAll_def)
qed

lemma handleResponse_failure:
  "Response.StatusCode resp < 200 \<or> 300 \<le> Response.StatusCode resp \<Longrightarrow>
   handleResponse lib resp data = (Some (handleHTTPError lib resp), data)"
  by (auto simp: handleResponse_def)

lemma handleResponse_decoded:
  assumes "200 \<le> Response.StatusCode resp" and "Response.StatusCode resp < 300"
    and "Response.Body resp = Inr body"
    and "Unmarshal_graphQLResponse lib body \<lparr>Data = data, Errors = []\<rparr> = (None, Some gr)"
  shows "handleResponse lib resp data =
           (if Errors gr = [] then None else Some (GraphQLErrorResponse (Errors gr)), Data gr)"
  using assms by (simp add: handleResponse_def ioutil_ReadAll_def)

text \<open>\<^verbatim>\<open>strings.Join\<close> puts the separator between consecutive elements and nowhere else.\<close>

lemma Join_concat: "Join (x # xs) sep = x @ concat (map (\<lambda>y. sep @ y) xs)"
  by (induction xs arbitrary: x) simp_all

text \<open>The test double on a request without userinfo and an answer that is no redirect.\<close>

lemma Do_serve:
  assumes "\<not> HasPrefix (Text (URL rq)) ''https://user:pw@''" and "status \<noteq> 302"
  shows "Do exampleLib (DefaultTransport (serve status hdrs body)) rq st =
     (Inr \<lparr>Response.StatusCode = status, Header = map_of hdrs, Body = body, Request = rq\<rparr>,
      st\<lparr>sent := sent st @ [rq]\<rparr>)"
proof -
  have b: "withBasicAuth exampleLib rq = rq"
    using assms(1) by (simp add: withBasicAuth_def exampleLib_def)
  have r: "Redirect exampleLib [rq]
             \<lparr>Response.StatusCode = status, Header = map_of hdrs, Body = body, Request = rq\<rparr> = None"
    using assms(2) by (simp add: exampleLib_def followLocation_def Let_def)
  have t: "DefaultTransport (serve status hdrs body) rq st =
             (Responded \<lparr>Response.StatusCode = status, Header = map_of hdrs, Body = body,
                          Request = rq\<rparr>, st\<lparr>sent := sent st @ [rq]\<rparr>)"
    by (simp add: DefaultTransport_def serve_def)
  show ?thesis
    unfolding Do_def by (subst doHops.simps) (simp add: b t r)
qed

lemma exampleLib_requests:
  "NewRequest exampleLib ''GET'' (restEndpoint Map.empty ''user'') = Inr ''api.github.com''"
  "NewRequest exampleLib ''POST'' (graphQLEndpoint Map.empty) = Inr ''api.github.com''"
  "Marshal exampleLib ''query'' () = Inr ''query''"
  "restEndpoint Map.empty ''user'' = ''https://api.github.com/user''"
  "graphQLEndpoint Map.empty = ''https://api.github.com/graphql''"
  by (simp_all add: exampleLib_def hostOf_def restEndpoint_def graphQLEndpoint_def Getenv_def)

lemma plain_requests:
  "\<not> HasPrefix (Text (URL (newJSONRequest method (restEndpoint Map.empty ''user'') host body)))
       ''https://user:pw@''"
  "\<not> HasPrefix (Text (URL (newJSONRequest method (graphQLEndpoint Map.empty) host body)))
       ''https://user:pw@''"
  "\<not> HasPrefix (Text (URL (newJSONRequest method ''https://api.github.com/user'' host body)))
       ''https://user:pw@''"
  by (simp_all add: newJSONRequest_def exampleLib_requests HasPrefix_def)

section \<open>HasScopes\<close>

text \<open>The two loops count, for every granted scope, the wanted scopes equal to it.\<close>

lemma countWanted_eq: "countWanted ws s n = n + count_list ws (TrimSpace s)"
  by (induction ws arbitrary: n) auto

lemma countFound_eq:
  "countFound ws ss n = n + sum_list (map (\<lambda>s. count_list ws (TrimSpace s)) ss)"
  by (induction ss arbitrary: n) (auto simp: countWanted_eq)

lemma length_filter_insert:
  "\<not> P t \<Longrightarrow> length (filter (\<lambda>w. w = t \<or> P w) ws) = count_list ws t + length (filter P ws)"
  by (induction ws) auto

lemma sum_count_distinct:
  "distinct ts \<Longrightarrow> sum_list (map (count_list ws) ts) = length (filter (\<lambda>w. w \<in> set ts) ws)"
proof (induction ts)
  case Nil
  then show ?case by simp
next
  case (Cons t ts)
  then have "t \<notin> set ts" "distinct ts" by simp_all
  then show ?case
    using Cons.IH length_filter_insert [of "\<lambda>w. w \<in> set ts" t ws] by simp
qed

lemma length_filter_all: "(length (filter P ws) = length ws) = (\<forall>w\<in>set ws. P w)"
proof (induction ws)
  case Nil
  then show ?case by simp
next
  case (Cons w ws)
  have "length (filter P ws) \<le> length ws" by simp
  then have "length (filter P ws) \<noteq> Suc (length ws)" by arith
  with Cons show ?case by auto
qed

lemma countFound_distinct:
  assumes "distinct (map TrimSpace ss)"
  shows "(countFound ws ss 0 = length ws) = (\<forall>w\<in>set ws. w \<in> set (map TrimSpace ss))"
proof -
  have "countFound ws ss 0 = sum_list (map (count_list ws) (map TrimSpace ss))"
    by (simp add: countFound_eq comp_def)
  also have "\<dots> = length (filter (\<lambda>w. w \<in> set (map TrimSpace ss)) ws)"
    using assms by (rule sum_count_distinct)
  finally show ?thesis
    by (simp only: length_filter_all)
qed

text \<open>
  Claim C1, as amended. When \<^verbatim>\<open>HasScopes\<close> receives a response with status 200 whose
  granted-scopes header repeats no token (after trimming), it returns true exactly when
  every requested scope string itself is among the trimmed comma-separated tokens of that
  header, together with the app identifier and no error. The \<^verbatim>\<open>admin:\<close> analog of a
  \<^verbatim>\<open>read:\<close> scope plays no part.
\<close>

theorem HasScopes_iff_all_present:
  assumes "NewRequest lib ''GET'' ''https://api.github.com/user'' = Inr host"
    and "Do lib c (newJSONRequest ''GET'' ''https://api.github.com/user'' host None) st = (Inr res, st')"
    and "Response.StatusCode res = 200"
    and "distinct (grantedScopes res)"
  shows "HasScopes lib c wantedScopes st =
           ((\<forall>w\<in>set wantedScopes. w \<in> set (grantedScopes res),
             Header_Get (Response.Header res) ''X-Oauth-Client-Id'', None), st')"
proof -
  let ?ss = "Split (Header_Get (Response.Header res) ''X-Oauth-Scopes'') '',''"
  have "(countFound wantedScopes ?ss 0 = length wantedScopes) =
          (\<forall>w\<in>set wantedScopes. w \<in> set (grantedScopes res))"
    using assms(4) countFound_distinct [of ?ss wantedScopes] by (simp add: grantedScopes_def)
  then show ?thesis
    using assms(1-3) by (simp add: HasScopes_def Let_def)
qed

text \<open>
  The theorem at a run: the header grants \<^verbatim>\<open>repo, read:org ,gist\<close>, the caller wants
  \<^verbatim>\<open>gist\<close> and \<^verbatim>\<open>repo\<close>.
\<close>

theorem HasScopes_iff_all_present_witness:
  "fst (HasScopes exampleLib (DefaultTransport (scopesServer ''repo, read:org ,gist''))
          [''gist'', ''repo''] process0)
     = (True, ''178c6fc778ccc68e1d6a'', None)"
proof -
  define rq where "rq = newJSONRequest ''GET'' ''https://api.github.com/user'' ''api.github.com'' None"
  define res where "res = \<lparr>Response.StatusCode = 200,
      Header = map_of [(''X-Oauth-Client-Id'', [''178c6fc778ccc68e1d6a'']),
                       (''X-Oauth-Scopes'', [''repo, read:org ,gist''])],
      Body = Inr ''{}'', Request = rq\<rparr>"
  define st' where "st' = process0\<lparr>sent := sent process0 @ [rq]\<rparr>"
  have h1: "NewRequest exampleLib ''GET'' ''https://api.github.com/user'' = Inr ''api.github.com''"
    by (simp add: exampleLib_def hostOf_def)
  have h2: "Do exampleLib (DefaultTransport (scopesServer ''repo, read:org ,gist''))
              (newJSONRequest ''GET'' ''https://api.github.com/user'' ''api.github.com'' None)
              process0 = (Inr res, st')"
    unfolding scopesServer_def res_def st'_def rq_def
    by (simp add: Do_serve plain_requests)
  have h3: "Response.StatusCode res = 200"
    by (simp add: res_def)
  have g: "grantedScopes res = [''repo'', ''read:org'', ''gist'']"
    unfolding grantedScopes_def res_def by code_simp
  have h4: "distinct (grantedScopes res)"
    unfolding g by simp
  have a: "Header_Get (Response.Header res) ''X-Oauth-Client-Id'' = ''178c6fc778ccc68e1d6a''"
    unfolding res_def by code_simp
  show ?thesis
    using HasScopes_iff_all_present [OF h1 h2 h3 h4, of "[''gist'', ''repo'']"]
    by (simp add: g a)
qed

text \<open>
  Claim C1 as stated fails: the header grants \<^verbatim>\<open>admin:org\<close>, the caller wants
  \<^verbatim>\<open>read:org\<close>; every wanted scope is granted in the claim's sense, and \<^verbatim>\<open>HasScopes\<close>
  returns false.
\<close>

theorem HasScopes_admin_analog_counterexample:
  "list_all (spec_scope_granted
      (grantedScopes \<lparr>Response.StatusCode = 200,
          Header = map_of [(''X-Oauth-Client-Id'', [''178c6fc778ccc68e1d6a'']),
                           (''X-Oauth-Scopes'', [''admin:org''])],
          Body = Inr ''{}'',
          Request = newJSONRequest ''GET'' ''https://api.github.com/user''
                      ''api.github.com'' None\<rparr>))
      [''read:org'']
   \<and> fst (HasScopes exampleLib (DefaultTransport (scopesServer ''admin:org''))
             [''read:org''] process0)
       = (False, ''178c6fc778ccc68e1d6a'', None)"
  by code_simp

text \<open>
  Why the theorem asks for a header without repeated tokens: the loops count matches, so
  a repeated token is counted twice. Here \<^verbatim>\<open>gist\<close> is wanted and not granted, and the
  count still reaches the number of wanted scopes.
\<close>

lemma HasScopes_counts_repeated_tokens:
  "fst (HasScopes exampleLib (DefaultTransport (scopesServer ''repo,repo''))
          [''repo'', ''gist''] process0)
     = (True, ''178c6fc778ccc68e1d6a'', None)"
  by code_simp

section \<open>Header injection\<close>

text \<open>
  Claim C3. A header injector, static or dynamic, whose name is \<^verbatim>\<open>Authorization\<close> (in any
  letter case) adds nothing to a request whose host name does not end in \<^verbatim>\<open>.github.com\<close>,
  whatever the value: the wrapped sender is called with the request as it came, and the
  request that reaches the network is that very request.
\<close>

theorem Authorization_not_injected:
  assumes "EqualFold name ''Authorization''"
    and "\<not> HasSuffix (Hostname (URL req)) ''.github.com''"
  shows "AddHeader name val tr req st = tr req st
       \<and> AddHeaderFunc name valf tr req st = tr req st
       \<and> sent (snd (AddHeader name val (DefaultTransport net) req st)) = sent st @ [req]
       \<and> sent (snd (AddHeaderFunc name valf (DefaultTransport net) req st)) = sent st @ [req]"
  using assms
  by (simp add: AddHeader_def AddHeaderFunc_def DefaultTransport_def split: prod.splits)

text \<open>
  The theorem at a run: a request for \<^verbatim>\<open>example.com\<close> through a static and through a
  dynamic \<^verbatim>\<open>Authorization\<close> injector reaches the network without the header.
\<close>

theorem Authorization_not_injected_witness:
  "map (\<lambda>r. (Text (URL r), Request.Header r ''Authorization''))
     (sent (snd (AddHeader ''Authorization'' ''token 123'' (DefaultTransport (scopesServer ''repo''))
        (newJSONRequest ''GET'' ''https://example.com/x'' ''example.com'' None) process0)))
   = [(''https://example.com/x'', None)]
   \<and> map (\<lambda>r. (Text (URL r), Request.Header r ''Authorization''))
     (sent (snd (AddHeaderFunc ''authorization'' (\<lambda>w. ''token 456'')
        (DefaultTransport (scopesServer ''repo''))
        (newJSONRequest ''GET'' ''https://example.com/x'' ''example.com'' None) process0)))
   = [(''https://example.com/x'', None)]"
proof -
  let ?req = "newJSONRequest ''GET'' ''https://example.com/x'' ''example.com'' None"
  have e1: "EqualFold ''Authorization'' ''Authorization''"
    and e2: "EqualFold ''authorization'' ''Authorization''"
    by code_simp+
  have h: "\<not> HasSuffix (Hostname (URL ?req)) ''.github.com''"
    by code_simp
  have k: "Request.Header ?req ''Authorization'' = None" "Text (URL ?req) = ''https://example.com/x''"
    by code_simp+
  have s1: "sent (snd (AddHeader ''Authorization'' ''token 123''
               (DefaultTransport (scopesServer ''repo'')) ?req process0)) = sent process0 @ [?req]"
    using Authorization_not_injected [OF e1 h] by blast
  have s2: "sent (snd (AddHeaderFunc ''authorization'' (\<lambda>w. ''token 456'')
               (DefaultTransport (scopesServer ''repo'')) ?req process0)) = sent process0 @ [?req]"
    using Authorization_not_injected [OF e2 h] by blast
  show ?thesis
    unfolding s1 s2 by (simp add: process0_def k)
qed

text \<open>For comparison: the same injector on a request for \<^verbatim>\<open>api.github.com\<close> adds the header.\<close>

lemma Authorization_injected_on_service_host:
  "map (\<lambda>r. Request.Header r ''Authorization'')
     (sent (snd (AddHeader ''Authorization'' ''token 123'' (DefaultTransport (scopesServer ''repo''))
        (newJSONRequest ''GET'' ''https://api.github.com/user'' ''api.github.com'' None) process0)))
   = [Some [''token 123'']]"
  by code_simp

section \<open>Endpoint selection\<close>

text \<open>
  Claim C9. With \<open>H\<close> the value of \<^verbatim>\<open>GITHUB_HOST\<close> (empty when unset): the request that a
  REST call issues is for \<^verbatim>\<open>https://api.github.com/<path>\<close> when \<open>H\<close> is empty and for
  \<^verbatim>\<open>https://H/api/v3/<path>\<close> otherwise, and the request that a GraphQL call issues is for
  \<^verbatim>\<open>https://api.github.com/graphql\<close> when \<open>H\<close> is empty and for \<^verbatim>\<open>https://H/api/graphql\<close>
  otherwise. That request is the first one of the call to reach the network (others follow
  only when \<^verbatim>\<open>http.Client\<close> follows redirects). This holds for every client built from
  header injectors and scope checks, whenever the request can be built at all.
\<close>

theorem endpoint_host_selection:
  assumes "list_all decorator opts"
    and "H = Getenv env ''GITHUB_HOST''"
    and "restURL = (if H = [] then ''https://api.github.com/'' @ p
                    else ''https://'' @ H @ ''/api/v3/'' @ p)"
    and "graphQLURL = (if H = [] then ''https://api.github.com/graphql''
                       else ''https://'' @ H @ ''/api/graphql'')"
    and "NewRequest lib method restURL = Inr rhost"
    and "Marshal lib query variables = Inr reqBody"
    and "NewRequest lib ''POST'' graphQLURL = Inr ghost"
  shows "(\<exists>req more.
            sent (snd (REST lib env (NewHTTPClient net opts) method p body data st))
              = sent st @ req # more
            \<and> URL req = \<lparr>Text = restURL, Hostname = rhost\<rparr>)
       \<and> (\<exists>req more.
            sent (snd (GraphQL lib env (NewHTTPClient net opts) query variables data st))
              = sent st @ req # more
            \<and> URL req = \<lparr>Text = graphQLURL, Hostname = ghost\<rparr>)"
proof -
  have r: "restURL = restEndpoint env p" and g: "graphQLURL = graphQLEndpoint env"
    using assms(2-4) by (simp_all add: restEndpoint_def graphQLEndpoint_def)
  have "snd (REST lib env (NewHTTPClient net opts) method p body data st) =
        snd (Do lib (NewHTTPClient net opts) (newJSONRequest method restURL rhost body) st)"
    using assms(5) unfolding r by (rule REST_state)
  moreover have "snd (GraphQL lib env (NewHTTPClient net opts) query variables data st) =
        snd (Do lib (NewHTTPClient net opts) (newJSONRequest ''POST'' graphQLURL ghost (Some reqBody)) st)"
    using assms(6,7) unfolding g by (rule GraphQL_state)
  ultimately show ?thesis
    using client_first_request [OF assms(1), of lib net "method" restURL rhost body st]
      client_first_request [OF assms(1), of lib net "''POST''" graphQLURL ghost "Some reqBody" st]
    by (simp only:) blast
qed

text \<open>The theorem at two runs of the command layer's client: no override, and an override.\<close>

theorem endpoint_host_selection_witness:
  "((\<exists>req more. sent (snd (REST exampleLib Map.empty (NewHTTPClient (scopesServer ''repo'') exampleOptions)
               ''GET'' ''user'' None [] process0)) = sent process0 @ req # more
          \<and> URL req = \<lparr>Text = ''https://api.github.com/user'', Hostname = ''api.github.com''\<rparr>)
     \<and> (\<exists>req more. sent (snd (GraphQL exampleLib Map.empty (NewHTTPClient (scopesServer ''repo'') exampleOptions)
               ''query'' () [] process0)) = sent process0 @ req # more
          \<and> URL req = \<lparr>Text = ''https://api.github.com/graphql'', Hostname = ''api.github.com''\<rparr>))
   \<and> ((\<exists>req more. sent (snd (REST exampleLib gheEnv (NewHTTPClient (scopesServer ''repo'') exampleOptions)
               ''GET'' ''user'' None [] process0)) = sent process0 @ req # more
          \<and> URL req = \<lparr>Text = ''https://ghe.example.com/api/v3/user'', Hostname = ''ghe.example.com''\<rparr>)
     \<and> (\<exists>req more. sent (snd (GraphQL exampleLib gheEnv (NewHTTPClient (scopesServer ''repo'') exampleOptions)
               ''query'' () [] process0)) = sent process0 @ req # more
          \<and> URL req = \<lparr>Text = ''https://ghe.example.com/api/graphql'', Hostname = ''ghe.example.com''\<rparr>))"
proof -
  have d: "list_all decorator exampleOptions"
    by (simp add: exampleOptions_def decorator.intros)
  have m: "Marshal exampleLib ''query'' () = Inr ''query''"
    by (simp add: exampleLib_def)
  have a: "[] = Getenv Map.empty ''GITHUB_HOST''"
    by (simp add: Getenv_def)
  have a1: "''https://api.github.com/user'' =
      (if ([]::string) = [] then ''https://api.github.com/'' @ ''user'' else ''https://'' @ [] @ ''/api/v3/'' @ ''user'')"
    and a2: "''https://api.github.com/graphql'' =
      (if ([]::string) = [] then ''https://api.github.com/graphql'' else ''https://'' @ [] @ ''/api/graphql'')"
    by simp_all
  have a3: "NewRequest exampleLib ''GET'' ''https://api.github.com/user'' = Inr ''api.github.com''"
    and a4: "NewRequest exampleLib ''POST'' ''https://api.github.com/graphql'' = Inr ''api.github.com''"
    by (simp_all add: exampleLib_def hostOf_def)
  have b: "''ghe.example.com'' = Getenv gheEnv ''GITHUB_HOST''"
    by (simp add: Getenv_def gheEnv_def)
  have b1: "''https://ghe.example.com/api/v3/user'' =
      (if ''ghe.example.com'' = [] then ''https://api.github.com/'' @ ''user''
       else ''https://'' @ ''ghe.example.com'' @ ''/api/v3/'' @ ''user'')"
    and b2: "''https://ghe.example.com/api/graphql'' =
      (if ''ghe.example.com'' = [] then ''https://api.github.com/graphql''
       else ''https://'' @ ''ghe.example.com'' @ ''/api/graphql'')"
    by simp_all
  have b3: "NewRequest exampleLib ''GET'' ''https://ghe.example.com/api/v3/user'' = Inr ''ghe.example.com''"
    and b4: "NewRequest exampleLib ''POST'' ''https://ghe.example.com/api/graphql'' = Inr ''ghe.example.com''"
    by (simp_all add: exampleLib_def hostOf_def)
  show ?thesis
    using endpoint_host_selection [OF d a a1 a2 a3 m a4]
      endpoint_host_selection [OF d b b1 b2 b3 m b4]
    by blast
qed

text \<open>
  A followed redirect: the service answers the request for \<^verbatim>\<open>user\<close> with a 302; the call
  makes two requests, the first of them the one REST built, and succeeds on the second.
\<close>

lemma redirects_are_followed:
  "map (\<lambda>r. Text (URL r))
     (sent (snd (REST exampleLib Map.empty
        (NewHTTPClient
           (\<lambda>req. if Text (URL req) = ''https://api.github.com/user''
                  then serve 302 [(''Location'', [''https://api.github.com/users/octocat''])]
                         (Inr []) req
                  else serve 200 [] (Inr ''{}'') req)
           exampleOptions)
        ''GET'' ''user'' None [] process0)))
   = [''https://api.github.com/user'', ''https://api.github.com/users/octocat'']"
  by code_simp

text \<open>After nine requests already made, a tenth that is redirected again ends the call.\<close>

lemma redirects_stop_after_ten_requests:
  "(case fst (doHops exampleLib
          (DefaultTransport (serve 302 [(''Location'', [''https://api.github.com/user''])] (Inr [])))
          (replicate 9 (newJSONRequest ''GET'' ''https://api.github.com/user'' ''api.github.com'' None))
          (newJSONRequest ''GET'' ''https://api.github.com/user'' ''api.github.com'' None)
          process0) of
      Inl err \<Rightarrow> Some err
    | Inr res \<Rightarrow> None)
   = Some (ClientDoError (OtherError ''stopped after 10 redirects''))"
  by code_simp

section \<open>The credential and a self-hosted service\<close>

text \<open>
  Claim C10, as amended. Let \<^verbatim>\<open>GITHUB_HOST\<close> name a host that does not end in
  \<^verbatim>\<open>.github.com\<close> (the host name of the URL built from it), and take any client built from
  header injectors and scope checks, \<^verbatim>\<open>Authorization\<close> injectors among them or not. Whenever
  the request can be built, the
  request that a REST or a GraphQL call issues is the first of the call to reach the
  network, for the overridden host, and no decorator has put an \<^verbatim>\<open>Authorization\<close> header on
  it: it has none when the URL carries no userinfo, and the \<^verbatim>\<open>Basic\<close> header that
  \<^verbatim>\<open>http.Client\<close> derives from the userinfo when it does. On every request that the client's
  transport is given for a host not ending in \<^verbatim>\<open>.github.com\<close> (a followed redirect, say)
  the \<^verbatim>\<open>Authorization\<close> entry reaches the network as it was given.
\<close>

theorem no_credential_on_override_host:
  assumes "list_all decorator opts"
    and "Getenv env ''GITHUB_HOST'' = H" and "H \<noteq> []"
    and "NewRequest lib method (''https://'' @ H @ ''/api/v3/'' @ p) = Inr rhost"
    and "\<not> HasSuffix rhost ''.github.com''"
    and "Marshal lib query variables = Inr reqBody"
    and "NewRequest lib ''POST'' (''https://'' @ H @ ''/api/graphql'') = Inr ghost"
    and "\<not> HasSuffix ghost ''.github.com''"
  shows "(\<exists>req more.
            sent (snd (REST lib env (NewHTTPClient net opts) method p body data st))
              = sent st @ req # more
            \<and> URL req = \<lparr>Text = ''https://'' @ H @ ''/api/v3/'' @ p, Hostname = rhost\<rparr>
            \<and> Request.Header req ''Authorization''
                = map_option (\<lambda>v. [v]) (BasicAuth lib (''https://'' @ H @ ''/api/v3/'' @ p)))
       \<and> (\<exists>req more.
            sent (snd (GraphQL lib env (NewHTTPClient net opts) query variables data st))
              = sent st @ req # more
            \<and> URL req = \<lparr>Text = ''https://'' @ H @ ''/api/graphql'', Hostname = ghost\<rparr>
            \<and> Request.Header req ''Authorization''
                = map_option (\<lambda>v. [v]) (BasicAuth lib (''https://'' @ H @ ''/api/graphql'')))
       \<and> (\<forall>req s. \<not> HasSuffix (Hostname (URL req)) ''.github.com'' \<longrightarrow>
            (\<exists>req'. sent (snd (NewHTTPClient net opts req s)) = sent s @ [req']
                   \<and> URL req' = URL req
                   \<and> Request.Header req' ''Authorization'' = Request.Header req ''Authorization''))"
proof (intro conjI allI impI)
  have r: "''https://'' @ H @ ''/api/v3/'' @ p = restEndpoint env p"
    using assms(2,3) by (simp add: restEndpoint_def)
  have "snd (REST lib env (NewHTTPClient net opts) method p body data st) =
        snd (Do lib (NewHTTPClient net opts) (newJSONRequest method (restEndpoint env p) rhost body) st)"
    using assms(4) unfolding r by (rule REST_state)
  then show "\<exists>req more.
            sent (snd (REST lib env (NewHTTPClient net opts) method p body data st))
              = sent st @ req # more
            \<and> URL req = \<lparr>Text = ''https://'' @ H @ ''/api/v3/'' @ p, Hostname = rhost\<rparr>
            \<and> Request.Header req ''Authorization''
                = map_option (\<lambda>v. [v]) (BasicAuth lib (''https://'' @ H @ ''/api/v3/'' @ p))"
    using client_first_request [OF assms(1), of lib net "method" "restEndpoint env p" rhost body st]
      assms(5)
    unfolding r by (simp only:) blast
next
  have g: "''https://'' @ H @ ''/api/graphql'' = graphQLEndpoint env"
    using assms(2,3) by (simp add: graphQLEndpoint_def)
  have "snd (GraphQL lib env (NewHTTPClient net opts) query variables data st) =
        snd (Do lib (NewHTTPClient net opts)
          (newJSONRequest ''POST'' (graphQLEndpoint env) ghost (Some reqBody)) st)"
    using assms(6,7) unfolding g by (rule GraphQL_state)
  then show "\<exists>req more.
            sent (snd (GraphQL lib env (NewHTTPClient net opts) query variables data st))
              = sent st @ req # more
            \<and> URL req = \<lparr>Text = ''https://'' @ H @ ''/api/graphql'', Hostname = ghost\<rparr>
            \<and> Request.Header req ''Authorization''
                = map_option (\<lambda>v. [v]) (BasicAuth lib (''https://'' @ H @ ''/api/graphql''))"
    using client_first_request [OF assms(1), of lib net "''POST''" "graphQLEndpoint env" ghost "Some reqBody" st]
      assms(8)
    unfolding g by (simp only:) blast
next
  fix req :: Request and s
  assume h: "\<not> HasSuffix (Hostname (URL req)) ''.github.com''"
  from assms(1) have "relays (NewHTTPClient net opts)"
    by (rule relays_NewHTTPClient)
  then obtain req' where "sent (snd (NewHTTPClient net opts req s)) = sent s @ [req']"
      "forwarded req req'"
    unfolding relays_def by blast
  with h show "\<exists>req'. sent (snd (NewHTTPClient net opts req s)) = sent s @ [req']
                   \<and> URL req' = URL req
                   \<and> Request.Header req' ''Authorization'' = Request.Header req ''Authorization''"
    by (auto simp: forwarded_def)
qed

text \<open>
  The theorem at a run of the command layer's client, whose options include a dynamic
  \<^verbatim>\<open>Authorization\<close> injector; the override carries no userinfo.
\<close>

theorem no_credential_on_override_host_witness:
  "(\<exists>req more. sent (snd (REST exampleLib gheEnv (NewHTTPClient (scopesServer ''repo'') exampleOptions)
              ''GET'' ''user'' None [] process0)) = sent process0 @ req # more
         \<and> URL req = \<lparr>Text = ''https://ghe.example.com/api/v3/user'', Hostname = ''ghe.example.com''\<rparr>
         \<and> Request.Header req ''Authorization'' = None)
   \<and> (\<exists>req more. sent (snd (GraphQL exampleLib gheEnv (NewHTTPClient (scopesServer ''repo'') exampleOptions)
              ''query'' () [] process0)) = sent process0 @ req # more
         \<and> URL req = \<lparr>Text = ''https://ghe.example.com/api/graphql'', Hostname = ''ghe.example.com''\<rparr>
         \<and> Request.Header req ''Authorization'' = None)"
proof -
  have d: "list_all decorator exampleOptions"
    by (simp add: exampleOptions_def decorator.intros)
  have m: "Marshal exampleLib ''query'' () = Inr ''query''"
    by (simp add: exampleLib_def)
  have b: "Getenv gheEnv ''GITHUB_HOST'' = ''ghe.example.com''" and n: "''ghe.example.com'' \<noteq> []"
    by (simp_all add: Getenv_def gheEnv_def)
  have b3: "NewRequest exampleLib ''GET'' (''https://'' @ ''ghe.example.com'' @ ''/api/v3/'' @ ''user'')
              = Inr ''ghe.example.com''"
    and b4: "NewRequest exampleLib ''POST'' (''https://'' @ ''ghe.example.com'' @ ''/api/graphql'')
              = Inr ''ghe.example.com''"
    by (simp_all add: exampleLib_def hostOf_def)
  have s: "\<not> HasSuffix ''ghe.example.com'' ''.github.com''"
    by code_simp
  have u: "BasicAuth exampleLib (''https://'' @ ''ghe.example.com'' @ ''/api/v3/'' @ ''user'') = None"
    "BasicAuth exampleLib (''https://'' @ ''ghe.example.com'' @ ''/api/graphql'') = None"
    by (simp_all add: exampleLib_def HasPrefix_def)
  show ?thesis
    using no_credential_on_override_host [OF d b n b3 s m b4 s, of "scopesServer ''repo''" None "[]" process0]
    unfolding u by simp
qed

text \<open>
  Claim C10 as stated fails when the override carries userinfo: the host is
  \<^verbatim>\<open>ghe.example.com\<close>, which does not end in \<^verbatim>\<open>.github.com\<close>, and the request reaches it with
  an \<^verbatim>\<open>Authorization\<close> header, the \<^verbatim>\<open>Basic\<close> one that \<^verbatim>\<open>http.Client\<close> adds.
\<close>

theorem userinfo_Authorization_counterexample:
  "map (\<lambda>r. (Text (URL r), Hostname (URL r), Request.Header r ''Authorization''))
     (sent (snd (REST exampleLib gheUserEnv (NewHTTPClient (scopesServer ''repo'') exampleOptions)
        ''GET'' ''user'' None [] process0)))
   = [(''https://user:pw@ghe.example.com/api/v3/user'', ''ghe.example.com'',
       Some [''Basic dXNlcjpwdw==''])]
   \<and> \<not> HasSuffix ''ghe.example.com'' ''.github.com''"
  by code_simp

text \<open>For comparison, the same client without the override attaches the credential.\<close>

lemma credential_on_default_host:
  "map (\<lambda>r. (Text (URL r), Request.Header r ''Authorization''))
     (sent (snd (REST exampleLib Map.empty (NewHTTPClient (scopesServer ''repo'') exampleOptions)
        ''GET'' ''user'' None [] process0)))
   = [(''https://api.github.com/user'', Some [''token 0123abcd''])]"
  by code_simp

section \<open>Scope enforcement\<close>

text \<open>
  Claim C7. Let the decorator see a response with status at most 299 while
  \<^verbatim>\<open>issuedScopesWarning\<close> is false. Without the app-identifier header the response passes
  through and nothing else happens. With the header: when a trimmed comma-separated token
  of the granted-scopes header equals the wanted scope, or its \<^verbatim>\<open>admin:\<close> analog when the
  wanted scope begins with \<^verbatim>\<open>read:\<close>, the response passes through and nothing else
  happens; otherwise the callback is called, once, with the app identifier, on the world
  as the round trip left it.
\<close>

theorem CheckScopes_on_successful_response:
  assumes "tr req st = (Responded res, st1)"
    and "Response.StatusCode res \<le> 299"
    and "\<not> issuedScopesWarning st1"
  shows "(Response.Header res httpOAuthAppID = None \<longrightarrow>
            CheckScopes w cb tr req st = (Responded res, st1))
       \<and> (Response.Header res httpOAuthAppID \<noteq> None \<longrightarrow>
            (spec_scope_granted (grantedScopes res) w \<longrightarrow>
               CheckScopes w cb tr req st = (Responded res, st1))
          \<and> (\<not> spec_scope_granted (grantedScopes res) w \<longrightarrow>
               cbCalls (snd (CheckScopes w cb tr req st))
                 = cbCalls st1 @ [Header_Get (Response.Header res) httpOAuthAppID]
             \<and> world (snd (CheckScopes w cb tr req st))
                 = snd (cb (Header_Get (Response.Header res) httpOAuthAppID) (world st1))))"
proof (intro conjI impI)
  assume "Response.Header res httpOAuthAppID = None"
  then have "\<not> qualifying w (Responded res)"
    by (simp add: qualifying_def)
  then show "CheckScopes w cb tr req st = (Responded res, st1)"
    using assms(1) by (simp add: CheckScopes_skip)
next
  assume "spec_scope_granted (grantedScopes res) w"
  then have "\<not> qualifying w (Responded res)"
    by (simp add: qualifying_def)
  then show "CheckScopes w cb tr req st = (Responded res, st1)"
    using assms(1) by (simp add: CheckScopes_skip)
next
  let ?appID = "Header_Get (Response.Header res) httpOAuthAppID"
  assume "Response.Header res httpOAuthAppID \<noteq> None"
    and "\<not> spec_scope_granted (grantedScopes res) w"
  then have q: "qualifying w (Responded res)"
    using assms(2) by (simp add: qualifying_def)
  obtain e w' where c: "cb ?appID (world st1) = (e, w')"
    by (cases "cb ?appID (world st1)")
  have f: "CheckScopes w cb tr req st =
           (case cb ?appID (world st1) of
              (Some err, w') \<Rightarrow>
                (Failed (Some res) err, st1\<lparr>cbCalls := cbCalls st1 @ [?appID], world := w'\<rparr>)
            | (None, w') \<Rightarrow>
                (Responded res,
                 st1\<lparr>issuedScopesWarning := True, cbCalls := cbCalls st1 @ [?appID], world := w'\<rparr>))"
    using assms(1,3) q by (rule CheckScopes_fire)
  show "cbCalls (snd (CheckScopes w cb tr req st)) = cbCalls st1 @ [?appID]"
    unfolding f c by (cases e) simp_all
  show "world (snd (CheckScopes w cb tr req st)) = snd (cb ?appID (world st1))"
    unfolding f c by (cases e) simp_all
qed

text \<open>
  The theorem at a run: the response grants \<^verbatim>\<open>repo, gist\<close>, the decorator wants
  \<^verbatim>\<open>read:org\<close>; the callback is called with the app identifier.
\<close>

theorem CheckScopes_on_successful_response_witness:
  "cbCalls (snd (CheckScopes ''read:org'' (\<lambda>appID w. (None, w))
      (DefaultTransport (scopesServer ''repo, gist''))
      (newJSONRequest ''GET'' ''https://api.github.com/user'' ''api.github.com'' None) process0))
   = [''178c6fc778ccc68e1d6a'']"
proof -
  define rq where "rq = newJSONRequest ''GET'' ''https://api.github.com/user'' ''api.github.com'' None"
  define res where "res = \<lparr>Response.StatusCode = 200,
      Header = map_of [(''X-Oauth-Client-Id'', [''178c6fc778ccc68e1d6a'']),
                       (''X-Oauth-Scopes'', [''repo, gist''])],
      Body = Inr ''{}'', Request = rq\<rparr>"
  define st1 where "st1 = process0\<lparr>sent := sent process0 @ [rq]\<rparr>"
  have h1: "DefaultTransport (scopesServer ''repo, gist'') rq process0 = (Responded res, st1)"
    by (simp add: DefaultTransport_def scopesServer_def serve_def res_def st1_def)
  have h2: "Response.StatusCode res \<le> 299"
    by (simp add: res_def)
  have h3: "\<not> issuedScopesWarning st1"
    by (simp add: st1_def process0_def)
  have h4: "Response.Header res httpOAuthAppID \<noteq> None"
    by (simp add: res_def httpOAuthAppID_def)
  have g: "grantedScopes res = [''repo'', ''gist'']"
    unfolding grantedScopes_def res_def by code_simp
  have h5: "\<not> spec_scope_granted (grantedScopes res) ''read:org''"
    unfolding g by code_simp
  have a: "Header_Get (Response.Header res) httpOAuthAppID = ''178c6fc778ccc68e1d6a''"
    unfolding res_def by code_simp
  have "cbCalls (snd (CheckScopes ''read:org'' (\<lambda>appID w. (None, w))
          (DefaultTransport (scopesServer ''repo, gist'')) rq process0))
        = cbCalls st1 @ [Header_Get (Response.Header res) httpOAuthAppID]"
    using CheckScopes_on_successful_response
      [where tr = "DefaultTransport (scopesServer ''repo, gist'')" and req = rq and st = process0,
       OF h1 h2 h3] h4 h5
    by blast
  then show ?thesis
    by (simp add: a st1_def process0_def rq_def)
qed

text \<open>One call through the decorator, when the callback returns no error.\<close>

lemma neutral_DefaultTransport: "neutral (DefaultTransport net)"
  by (simp add: neutral_def DefaultTransport_def split: prod.splits)

lemma neutral_AddHeader: "neutral tr \<Longrightarrow> neutral (AddHeader name val tr)"
  by (simp add: neutral_def AddHeader_def)

lemma neutral_AddHeaderFunc: "neutral tr \<Longrightarrow> neutral (AddHeaderFunc name valf tr)"
  by (simp add: neutral_def AddHeaderFunc_def)

lemma CheckScopes_call:
  assumes "neutral tr"
    and "\<forall>appID x. fst (cb appID x) = None"
    and "CheckScopes w cb tr req st = (r, st1)"
  shows "cbCalls st1 =
           cbCalls st @ (if \<not> issuedScopesWarning st \<and> qualifying w r then [appIDOf r] else [])
       \<and> issuedScopesWarning st1 = (issuedScopesWarning st \<or> qualifying w r)"
proof -
  obtain r0 st0 where t: "tr req st = (r0, st0)"
    by (cases "tr req st")
  with assms(1) have n: "issuedScopesWarning st0 = issuedScopesWarning st" "cbCalls st0 = cbCalls st"
    unfolding neutral_def by (metis snd_conv)+
  show ?thesis
  proof (cases r0)
    case (Failed res err)
    with t assms(3) have "r = Failed res err" "st1 = st0"
      by (simp_all add: CheckScopes_Failed)
    with n show ?thesis
      by (simp add: qualifying_def)
  next
    case (Responded res)
    show ?thesis
    proof (cases "issuedScopesWarning st0 \<or> \<not> qualifying w (Responded res)")
      case True
      with t Responded assms(3) have "r = Responded res" "st1 = st0"
        by (simp_all add: CheckScopes_skip)
      with n True show ?thesis
        by auto
    next
      case False
      let ?appID = "Header_Get (Response.Header res) httpOAuthAppID"
      obtain w' where c: "cb ?appID (world st0) = (None, w')"
        using assms(2) by (metis fst_conv surj_pair)
      have "CheckScopes w cb tr req st =
              (Responded res,
               st0\<lparr>issuedScopesWarning := True, cbCalls := cbCalls st0 @ [?appID], world := w'\<rparr>)"
        using t Responded False c by (simp add: CheckScopes_fire)
      with assms(3) have "r = Responded res"
        "st1 = st0\<lparr>issuedScopesWarning := True, cbCalls := cbCalls st0 @ [?appID], world := w'\<rparr>"
        by simp_all
      with n False show ?thesis
        by (simp add: appIDOf_def)
    qed
  qed
qed

text \<open>Once the flag is set, a call through the decorator is a call of the wrapped sender.\<close>

lemma CheckScopes_latched:
  assumes "neutral tr" and "issuedScopesWarning st"
  shows "CheckScopes w cb tr req st = tr req st"
proof -
  obtain r0 st0 where t: "tr req st = (r0, st0)"
    by (cases "tr req st")
  with assms have f: "issuedScopesWarning st0"
    unfolding neutral_def by (metis snd_conv)
  show ?thesis
  proof (cases r0)
    case (Failed res err)
    with t show ?thesis by (simp add: CheckScopes_Failed)
  next
    case (Responded res)
    with t f show ?thesis by (simp add: CheckScopes_skip)
  qed
qed

lemma calls_latched:
  assumes "neutral tr"
  shows "calls (CheckScopes w cb tr) reqs st = (rs, st') \<Longrightarrow> issuedScopesWarning st \<Longrightarrow>
         issuedScopesWarning st' \<and> cbCalls st' = cbCalls st"
proof (induction reqs arbitrary: st rs st')
  case Nil
  then show ?case by simp
next
  case (Cons req reqs)
  obtain r st1 where s: "CheckScopes w cb tr req st = (r, st1)"
    by (cases "CheckScopes w cb tr req st")
  obtain rs1 st2 where c: "calls (CheckScopes w cb tr) reqs st1 = (rs1, st2)"
    by (cases "calls (CheckScopes w cb tr) reqs st1")
  from Cons.prems(1) s c have e: "st' = st2"
    by simp
  from s Cons.prems(2) have "tr req st = (r, st1)"
    by (simp add: CheckScopes_latched [OF assms])
  with assms Cons.prems(2) have k: "issuedScopesWarning st1" "cbCalls st1 = cbCalls st"
    unfolding neutral_def by (metis snd_conv)+
  from Cons.IH [OF c k(1)] k(2) e show ?case
    by simp
qed

lemma calls_fire_once:
  assumes "neutral tr"
    and "\<forall>appID x. fst (cb appID x) = None"
  shows "calls (CheckScopes w cb tr) reqs st = (rs, st') \<Longrightarrow>
         cbCalls st' =
           cbCalls st @ (if issuedScopesWarning st then []
                         else (case firstQualifying w rs of None \<Rightarrow> [] | Some a \<Rightarrow> [a]))
       \<and> issuedScopesWarning st' = (issuedScopesWarning st \<or> firstQualifying w rs \<noteq> None)"
proof (induction reqs arbitrary: st rs st')
  case Nil
  then show ?case by simp
next
  case (Cons req reqs)
  obtain r st1 where s: "CheckScopes w cb tr req st = (r, st1)"
    by (cases "CheckScopes w cb tr req st")
  obtain rs1 st2 where c: "calls (CheckScopes w cb tr) reqs st1 = (rs1, st2)"
    by (cases "calls (CheckScopes w cb tr) reqs st1")
  from Cons.prems s c have e: "rs = r # rs1" "st' = st2"
    by simp_all
  note one = CheckScopes_call [OF assms s]
  note rest = Cons.IH [OF c]
  show ?case
  proof (cases "issuedScopesWarning st")
    case True
    with one rest e show ?thesis by simp
  next
    case False
    show ?thesis
    proof (cases "qualifying w r")
      case True
      with False one rest e show ?thesis by simp
    next
      case q: False
      with False one rest e show ?thesis by simp
    qed
  qed
qed

text \<open>One call through the decorator, whatever the callback returns.\<close>

lemma CheckScopes_step:
  assumes "tr req st = (r0, st0)"
  shows "if \<not> issuedScopesWarning st0 \<and> qualifying w r0
         then cbCalls (snd (CheckScopes w cb tr req st)) = cbCalls st0 @ [appIDOf r0]
            \<and> issuedScopesWarning (snd (CheckScopes w cb tr req st))
                = (fst (cb (appIDOf r0) (world st0)) = None)
         else CheckScopes w cb tr req st = (r0, st0)"
proof (cases r0)
  case (Failed res err)
  with assms show ?thesis
    by (simp add: CheckScopes_Failed qualifying_def)
next
  case (Responded res)
  show ?thesis
  proof (cases "issuedScopesWarning st0 \<or> \<not> qualifying w (Responded res)")
    case True
    with assms Responded have "CheckScopes w cb tr req st = (r0, st0)"
      by (simp add: CheckScopes_skip)
    with True Responded show ?thesis
      by auto
  next
    case False
    let ?appID = "Header_Get (Response.Header res) httpOAuthAppID"
    have a: "appIDOf r0 = ?appID"
      using Responded by (simp add: appIDOf_def)
    obtain e w' where c: "cb ?appID (world st0) = (e, w')"
      by (cases "cb ?appID (world st0)")
    have f: "CheckScopes w cb tr req st =
              (case cb ?appID (world st0) of
                 (Some err, w') \<Rightarrow>
                   (Failed (Some res) err, st0\<lparr>cbCalls := cbCalls st0 @ [?appID], world := w'\<rparr>)
               | (None, w') \<Rightarrow>
                   (Responded res,
                    st0\<lparr>issuedScopesWarning := True, cbCalls := cbCalls st0 @ [?appID],
                        world := w'\<rparr>))"
      using assms Responded False by (simp add: CheckScopes_fire)
    show ?thesis
    proof (cases e)
      case None
      with f c have "CheckScopes w cb tr req st =
          (Responded res,
           st0\<lparr>issuedScopesWarning := True, cbCalls := cbCalls st0 @ [?appID], world := w'\<rparr>)"
        by simp
      with False Responded a c None show ?thesis
        by simp
    next
      case (Some err)
      with f c have "CheckScopes w cb tr req st =
          (Failed (Some res) err, st0\<lparr>cbCalls := cbCalls st0 @ [?appID], world := w'\<rparr>)"
        by simp
      with False Responded a c Some show ?thesis
        by simp
    qed
  qed
qed

text \<open>
  Claim C2, as amended. Take a scope-enforcement decorator around a sender, in one process.

  On each call, once the wrapped sender has returned: if \<^verbatim>\<open>issuedScopesWarning\<close> is false
  and the response qualifies (status at most 299, app-identifier header present, wanted
  scope not satisfied), the callback is called once, with the response's app identifier,
  and the flag becomes true exactly when that call of the callback returns no error (a
  callback that returns an error leaves the flag false); otherwise the callback is not
  called, and the call returns what the wrapped sender returned, with its state.

  When the wrapped sender leaves the flag and the callbacks alone (the network, header
  injectors around it; not another scope-enforcement decorator), then over every sequence
  of calls: once the flag is true it stays true and the callback is never called again,
  whatever the callback does; and when the flag is false at the start and the callback
  never returns an error, the callback is called on the first qualifying response and on
  no later one, and the flag is true after the sequence exactly when some response
  qualified.
\<close>

theorem scope_warning_fires_once:
  "(\<forall>req st r0 st0. tr req st = (r0, st0) \<longrightarrow>
      (if \<not> issuedScopesWarning st0 \<and> qualifying w r0
       then cbCalls (snd (CheckScopes w cb tr req st)) = cbCalls st0 @ [appIDOf r0]
          \<and> issuedScopesWarning (snd (CheckScopes w cb tr req st))
              = (fst (cb (appIDOf r0) (world st0)) = None)
       else CheckScopes w cb tr req st = (r0, st0)))
   \<and> (neutral tr \<longrightarrow>
        (\<forall>reqs st rs st'. calls (CheckScopes w cb tr) reqs st = (rs, st') \<longrightarrow>
           (issuedScopesWarning st \<longrightarrow> issuedScopesWarning st' \<and> cbCalls st' = cbCalls st)
         \<and> ((\<forall>appID x. fst (cb appID x) = None) \<and> \<not> issuedScopesWarning st \<longrightarrow>
              cbCalls st' = cbCalls st @ (case firstQualifying w rs of None \<Rightarrow> [] | Some a \<Rightarrow> [a])
            \<and> issuedScopesWarning st' = (firstQualifying w rs \<noteq> None))))"
proof (intro conjI allI impI)
  fix req st r0 st0
  assume "tr req st = (r0, st0)"
  then show "if \<not> issuedScopesWarning st0 \<and> qualifying w r0
       then cbCalls (snd (CheckScopes w cb tr req st)) = cbCalls st0 @ [appIDOf r0]
          \<and> issuedScopesWarning (snd (CheckScopes w cb tr req st))
              = (fst (cb (appIDOf r0) (world st0)) = None)
       else CheckScopes w cb tr req st = (r0, st0)"
    by (rule CheckScopes_step)
next
  fix reqs st rs st'
  assume n: "neutral tr" and c: "calls (CheckScopes w cb tr) reqs st = (rs, st')"
    and "issuedScopesWarning st"
  then show "issuedScopesWarning st'" "cbCalls st' = cbCalls st"
    using calls_latched [OF n c] by simp_all
next
  fix reqs st rs st'
  assume n: "neutral tr" and c: "calls (CheckScopes w cb tr) reqs st = (rs, st')"
    and k: "(\<forall>appID x. fst (cb appID x) = None) \<and> \<not> issuedScopesWarning st"
  from k have k1: "\<forall>appID x. fst (cb appID x) = None" and f: "\<not> issuedScopesWarning st"
    by simp_all
  show "cbCalls st' = cbCalls st @ (case firstQualifying w rs of None \<Rightarrow> [] | Some a \<Rightarrow> [a])"
    using calls_fire_once [OF n k1 c] f by simp
  show "issuedScopesWarning st' = (firstQualifying w rs \<noteq> None)"
    using calls_fire_once [OF n k1 c] f by simp
qed

text \<open>
  The theorem at two runs against a service whose granted scopes do not satisfy
  \<^verbatim>\<open>read:org\<close>. Three calls through a decorator whose callback only warns: one call of
  the callback, and the flag is set. One call through a decorator whose callback fails:
  the callback is called, and the flag is not set.
\<close>

theorem scope_warning_fires_once_witness:
  "(cbCalls (snd (calls (CheckScopes ''read:org'' (\<lambda>appID w. (None, w))
            (DefaultTransport (scopesServer ''repo'')))
      (replicate 3 (newJSONRequest ''GET'' ''https://api.github.com/user'' ''api.github.com'' None))
      process0))
    = [''178c6fc778ccc68e1d6a'']
    \<and> issuedScopesWarning (snd (calls (CheckScopes ''read:org'' (\<lambda>appID w. (None, w))
            (DefaultTransport (scopesServer ''repo'')))
      (replicate 3 (newJSONRequest ''GET'' ''https://api.github.com/user'' ''api.github.com'' None))
      process0)))
   \<and> (cbCalls (snd (CheckScopes ''read:org'' (\<lambda>appID w. (Some (OtherError ''aborted''), w))
            (DefaultTransport (scopesServer ''repo''))
            (newJSONRequest ''GET'' ''https://api.github.com/user'' ''api.github.com'' None)
            process0))
      = [''178c6fc778ccc68e1d6a'']
    \<and> \<not> issuedScopesWarning (snd (CheckScopes ''read:org''
            (\<lambda>appID w. (Some (OtherError ''aborted''), w))
            (DefaultTransport (scopesServer ''repo''))
            (newJSONRequest ''GET'' ''https://api.github.com/user'' ''api.github.com'' None)
            process0)))"
proof -
  let ?tr = "DefaultTransport (scopesServer ''repo'')"
  let ?cb = "\<lambda>(appID::string) (w::unit). (None::error option, w)"
  let ?fb = "\<lambda>(appID::string) (w::unit). (Some (OtherError ''aborted''), w)"
  let ?rq = "newJSONRequest ''GET'' ''https://api.github.com/user'' ''api.github.com'' None"
  let ?reqs = "replicate 3 ?rq"
  obtain rs st' where c: "calls (CheckScopes ''read:org'' ?cb ?tr) ?reqs process0 = (rs, st')"
    by (cases "calls (CheckScopes ''read:org'' ?cb ?tr) ?reqs process0")
  have n: "neutral ?tr"
    by (rule neutral_DefaultTransport)
  have k: "\<forall>appID x. fst (?cb appID x) = None"
    by simp
  have r: "firstQualifying ''read:org'' (fst (calls (CheckScopes ''read:org'' ?cb ?tr) ?reqs process0))
             = Some ''178c6fc778ccc68e1d6a''"
    by code_simp
  have p: "\<not> issuedScopesWarning process0" "cbCalls process0 = []"
    by (simp_all add: process0_def)
  obtain r0 st0 where t: "?tr ?rq process0 = (r0, st0)"
    by (cases "?tr ?rq process0")
  have q: "qualifying ''read:org'' (fst (?tr ?rq process0))"
    "appIDOf (fst (?tr ?rq process0)) = ''178c6fc778ccc68e1d6a''"
    "\<not> issuedScopesWarning (snd (?tr ?rq process0))"
    "cbCalls (snd (?tr ?rq process0)) = []"
    by code_simp+
  have k': "(\<forall>appID x. fst (?cb appID x) = None) \<and> \<not> issuedScopesWarning process0"
    using k p by simp
  have "cbCalls st' = cbCalls process0 @ (case firstQualifying ''read:org'' rs of None \<Rightarrow> [] | Some a \<Rightarrow> [a])
      \<and> issuedScopesWarning st' = (firstQualifying ''read:org'' rs \<noteq> None)"
    using scope_warning_fires_once [of ?tr "''read:org''" ?cb, THEN conjunct2, rule_format, OF n c,
        THEN conjunct2, rule_format, OF k'] .
  with r p have seq: "cbCalls st' = [''178c6fc778ccc68e1d6a''] \<and> issuedScopesWarning st'"
    unfolding c by simp
  have "if \<not> issuedScopesWarning st0 \<and> qualifying ''read:org'' r0
        then cbCalls (snd (CheckScopes ''read:org'' ?fb ?tr ?rq process0)) = cbCalls st0 @ [appIDOf r0]
           \<and> issuedScopesWarning (snd (CheckScopes ''read:org'' ?fb ?tr ?rq process0))
               = (fst (?fb (appIDOf r0) (world st0)) = None)
        else CheckScopes ''read:org'' ?fb ?tr ?rq process0 = (r0, st0)"
    using scope_warning_fires_once [of ?tr "''read:org''" ?fb, THEN conjunct1, rule_format, OF t] .
  with q have one: "cbCalls (snd (CheckScopes ''read:org'' ?fb ?tr ?rq process0)) = [''178c6fc778ccc68e1d6a'']
      \<and> \<not> issuedScopesWarning (snd (CheckScopes ''read:org'' ?fb ?tr ?rq process0))"
    unfolding t by simp
  from seq one show ?thesis
    unfolding c by simp
qed

text \<open>
  Claim C2 as stated fails when the callback returns an error (a reauthentication that is
  aborted): two calls, both answered with scopes that do not satisfy \<^verbatim>\<open>read:org\<close>; the
  callback is called on both, and the flag is still false afterwards.
\<close>

theorem scope_warning_failing_callback_counterexample:
  "cbCalls (snd (calls (CheckScopes ''read:org'' (\<lambda>appID w. (Some (OtherError ''aborted''), w))
            (DefaultTransport (scopesServer ''repo'')))
      (replicate 2 (newJSONRequest ''GET'' ''https://api.github.com/user'' ''api.github.com'' None))
      process0))
   = [''178c6fc778ccc68e1d6a'', ''178c6fc778ccc68e1d6a'']
   \<and> \<not> issuedScopesWarning (snd (calls (CheckScopes ''read:org''
            (\<lambda>appID w. (Some (OtherError ''aborted''), w))
            (DefaultTransport (scopesServer ''repo'')))
      (replicate 2 (newJSONRequest ''GET'' ''https://api.github.com/user'' ''api.github.com'' None))
      process0))"
  by code_simp

text \<open>
  Why the wrapped sender matters: two scope-enforcement decorators, one around the other,
  share the flag. The service's scopes satisfy neither \<^verbatim>\<open>gist\<close> nor \<^verbatim>\<open>read:org\<close>; the inner
  decorator's callback is called on the first response and sets the flag, so the outer
  one's callback is never called. The state of the world is the log of the callbacks.
\<close>

lemma nested_scope_checks_share_the_flag:
  "world (snd (calls
      (CheckScopes ''read:org'' (\<lambda>appID w. (None, w @ [''outer'']))
         (CheckScopes ''gist'' (\<lambda>appID w. (None, w @ [''inner'']))
            (DefaultTransport (serve 200 [(''X-Oauth-Client-Id'', [''178c6fc778ccc68e1d6a'']),
                                          (''X-Oauth-Scopes'', [''repo''])] (Inr ''{}'')))))
      (replicate 3 (newJSONRequest ''GET'' ''https://api.github.com/user'' ''api.github.com'' None))
      \<lparr>issuedScopesWarning = False, cbCalls = [], sent = [], world = []\<rparr>))
   = [''inner'']"
  by code_simp

section \<open>Response classification\<close>

text \<open>
  Claim C4, as amended. For every response with status outside [200,300), REST and GraphQL
  both return an \<^verbatim>\<open>HTTPError\<close> whose \<^verbatim>\<open>StatusCode\<close> is the response status and whose
  \<^verbatim>\<open>Message\<close> is: the decoded \<^verbatim>\<open>message\<close> field when the body is read and decodes, the
  empty string when the body is read and does not decode, and the text of the read error
  when the body cannot be read. The caller's target is untouched.
\<close>

theorem non_success_yields_HTTPError:
  assumes "Response.StatusCode resp < 200 \<or> 300 \<le> Response.StatusCode resp"
    and "message = (case Response.Body resp of
                      Inl readErr \<Rightarrow> readErr
                    | Inr body \<Rightarrow>
                        (case Unmarshal_message lib body of
                           (None, m) \<Rightarrow> m
                         | (Some err, m) \<Rightarrow> []))"
    and "httpError = HTTPError \<lparr>StatusCode = Response.StatusCode resp,
                                RequestURL = URL (Request resp), Message = message\<rparr>"
  shows "(\<forall>host st'.
            NewRequest lib method (restEndpoint env p) = Inr host \<longrightarrow>
            Do lib c (newJSONRequest method (restEndpoint env p) host body) st = (Inr resp, st') \<longrightarrow>
            REST lib env c method p body data st = ((Some httpError, data), st'))
       \<and> (\<forall>reqBody host st'.
            Marshal lib query variables = Inr reqBody \<longrightarrow>
            NewRequest lib ''POST'' (graphQLEndpoint env) = Inr host \<longrightarrow>
            Do lib c (newJSONRequest ''POST'' (graphQLEndpoint env) host (Some reqBody)) st = (Inr resp, st') \<longrightarrow>
            GraphQL lib env c query variables data st = ((Some httpError, data), st'))"
proof -
  have h: "handleHTTPError lib resp = httpError"
    unfolding assms(2,3) by (rule handleHTTPError_eq)
  show ?thesis
  proof (intro conjI allI impI)
    fix host st'
    assume "NewRequest lib method (restEndpoint env p) = Inr host"
      and "Do lib c (newJSONRequest method (restEndpoint env p) host body) st = (Inr resp, st')"
    then show "REST lib env c method p body data st = ((Some httpError, data), st')"
      using assms(1) h by (auto simp: REST_on_response)
  next
    fix reqBody host st'
    assume "Marshal lib query variables = Inr reqBody"
      and "NewRequest lib ''POST'' (graphQLEndpoint env) = Inr host"
      and "Do lib c (newJSONRequest ''POST'' (graphQLEndpoint env) host (Some reqBody)) st = (Inr resp, st')"
    then show "GraphQL lib env c query variables data st = ((Some httpError, data), st')"
      using assms(1) h by (simp add: GraphQL_on_response handleResponse_failure)
  qed
qed

text \<open>The theorem at a run: status 404 with a \<^verbatim>\<open>message\<close> in the body, for REST and GraphQL.\<close>

theorem non_success_yields_HTTPError_witness:
  \<open>fst (REST exampleLib Map.empty
          (DefaultTransport (serve 404 [] (Inr ''{"message":"Not Found"}'')))
          ''GET'' ''user'' None [] process0)
     = (Some (HTTPError \<lparr>StatusCode = 404,
          RequestURL = \<lparr>Text = ''https://api.github.com/user'', Hostname = ''api.github.com''\<rparr>,
          Message = ''Not Found''\<rparr>), [])
   \<and> fst (GraphQL exampleLib Map.empty
          (DefaultTransport (serve 404 [] (Inr ''{"message":"Not Found"}'')))
          ''query'' () [] process0)
     = (Some (HTTPError \<lparr>StatusCode = 404,
          RequestURL = \<lparr>Text = ''https://api.github.com/graphql'', Hostname = ''api.github.com''\<rparr>,
          Message = ''Not Found''\<rparr>), [])\<close>
proof -
  let ?body = \<open>Inr ''{"message":"Not Found"}'' :: string + string\<close>
  let ?c = "DefaultTransport (serve 404 [] ?body) :: unit RoundTripper"
  let ?rq = "newJSONRequest ''GET'' (restEndpoint Map.empty ''user'') ''api.github.com'' None"
  let ?gq = "newJSONRequest ''POST'' (graphQLEndpoint Map.empty) ''api.github.com'' (Some ''query'')"
  let ?rresp = "\<lparr>Response.StatusCode = 404, Header = map_of [], Body = ?body, Request = ?rq\<rparr>"
  let ?gresp = "\<lparr>Response.StatusCode = 404, Header = map_of [], Body = ?body, Request = ?gq\<rparr>"
  have sr: "Response.StatusCode ?rresp < 200 \<or> 300 \<le> Response.StatusCode ?rresp"
    and sg: "Response.StatusCode ?gresp < 200 \<or> 300 \<le> Response.StatusCode ?gresp"
    by simp_all
  have mr: \<open>''Not Found'' =
      (case Response.Body ?rresp of
         Inl readErr \<Rightarrow> readErr
       | Inr body \<Rightarrow>
           (case Unmarshal_message exampleLib body of (None, m) \<Rightarrow> m | (Some err, m) \<Rightarrow> []))\<close>
    and mg: \<open>''Not Found'' =
      (case Response.Body ?gresp of
         Inl readErr \<Rightarrow> readErr
       | Inr body \<Rightarrow>
           (case Unmarshal_message exampleLib body of (None, m) \<Rightarrow> m | (Some err, m) \<Rightarrow> []))\<close>
    by (simp_all add: exampleLib_def)
  have dr: "Do exampleLib ?c ?rq process0 = (Inr ?rresp, process0\<lparr>sent := sent process0 @ [?rq]\<rparr>)"
    and dg: "Do exampleLib ?c ?gq process0 = (Inr ?gresp, process0\<lparr>sent := sent process0 @ [?gq]\<rparr>)"
    by (simp_all add: Do_serve plain_requests)
  have r: "REST exampleLib Map.empty ?c ''GET'' ''user'' None [] process0
           = ((Some (HTTPError \<lparr>StatusCode = Response.StatusCode ?rresp,
                 RequestURL = URL (Request ?rresp), Message = ''Not Found''\<rparr>), []),
              process0\<lparr>sent := sent process0 @ [?rq]\<rparr>)"
    using non_success_yields_HTTPError
        [where resp = ?rresp and lib = exampleLib and env = Map.empty and c = ?c
           and st = process0 and p = "''user''" and body = None
           and data = "[]", OF sr mr refl]
      exampleLib_requests(1) dr
    by blast
  have g: "GraphQL exampleLib Map.empty ?c ''query'' () [] process0
           = ((Some (HTTPError \<lparr>StatusCode = Response.StatusCode ?gresp,
                 RequestURL = URL (Request ?gresp), Message = ''Not Found''\<rparr>), []),
              process0\<lparr>sent := sent process0 @ [?gq]\<rparr>)"
    using non_success_yields_HTTPError
        [where resp = ?gresp and lib = exampleLib and env = Map.empty and c = ?c
           and st = process0 and query = "''query''" and variables = "()"
           and data = "[]", OF sg mg refl]
      exampleLib_requests(2,3) dg
    by blast
  show ?thesis
    unfolding r g by (simp add: exampleLib_requests newJSONRequest_def)
qed

text \<open>
  Claim C4 as stated fails twice. When the body cannot be read, \<^verbatim>\<open>Message\<close> is the text of
  the read error, not the empty string; and status 299, which is outside [200,299), is a
  success for the code.
\<close>

theorem HTTPError_read_error_counterexample:
  \<open>fst (REST exampleLib Map.empty
          (DefaultTransport (serve 500 [] (Inl ''unexpected EOF'')))
          ''GET'' ''user'' None [] process0)
     = (Some (HTTPError \<lparr>StatusCode = 500,
          RequestURL = \<lparr>Text = ''https://api.github.com/user'', Hostname = ''api.github.com''\<rparr>,
          Message = ''unexpected EOF''\<rparr>), [])
   \<and> fst (GraphQL exampleLib Map.empty
          (DefaultTransport (serve 299 [] (Inr ''{"data":{"login":"octocat"}}'')))
          ''query'' () [] process0)
     = (None, ''octocat'')\<close>
  by code_simp

text \<open>
  Claim C5. When GraphQL receives a response with status in [200,300) (so in particular
  in [200,299)) whose body decodes to an envelope with a non-empty error list, it returns
  a \<^verbatim>\<open>GraphQLErrorResponse\<close> holding that list, and the display form of that error is
  \<^verbatim>\<open>GraphQL error: \<close> followed by the errors' messages, in order, joined by newlines:
  the first message, then every further message behind one newline.
\<close>

theorem GraphQL_errors_yield_GraphQLErrorResponse:
  assumes "200 \<le> Response.StatusCode resp" and "Response.StatusCode resp < 300"
    and "Marshal lib query variables = Inr reqBody"
    and "NewRequest lib ''POST'' (graphQLEndpoint env) = Inr host"
    and "Do lib c (newJSONRequest ''POST'' (graphQLEndpoint env) host (Some reqBody)) st = (Inr resp, st')"
    and "Response.Body resp = Inr body"
    and "Unmarshal_graphQLResponse lib body \<lparr>Data = data, Errors = []\<rparr> = (None, Some gr)"
    and "Errors gr \<noteq> []"
  shows "fst (fst (GraphQL lib env c query variables data st)) = Some (GraphQLErrorResponse (Errors gr))
       \<and> GraphQLErrorResponse_Error (Errors gr)
           = ''GraphQL error: '' @ Join (map GraphQLError.Message (Errors gr)) [CHR 0x0A]
       \<and> GraphQLErrorResponse_Error (Errors gr)
           = ''GraphQL error: '' @ GraphQLError.Message (hd (Errors gr)) @
               concat (map (\<lambda>e. CHR 0x0A # GraphQLError.Message e) (tl (Errors gr)))"
proof -
  obtain e es where l: "Errors gr = e # es"
    using assms(8) by (cases "Errors gr") simp_all
  have "fst (fst (GraphQL lib env c query variables data st)) = Some (GraphQLErrorResponse (Errors gr))"
    using assms by (simp add: GraphQL_on_response handleResponse_decoded)
  moreover have "GraphQLErrorResponse_Error (Errors gr)
      = ''GraphQL error: '' @ GraphQLError.Message (hd (Errors gr)) @
          concat (map (\<lambda>e. CHR 0x0A # GraphQLError.Message e) (tl (Errors gr)))"
    unfolding l GraphQLErrorResponse_Error_def by (simp add: Join_concat comp_def)
  ultimately show ?thesis
    by (simp add: GraphQLErrorResponse_Error_def)
qed

text \<open>The theorem at a run: status 200, one error and no data.\<close>

theorem GraphQL_errors_yield_GraphQLErrorResponse_witness:
  \<open>fst (fst (GraphQL exampleLib Map.empty
      (DefaultTransport (serve 200 [] (Inr ''{"errors":[{"message":"Could not resolve."}]}'')))
      ''query'' () [] process0))
     = Some (GraphQLErrorResponse [\<lparr>Type = [], Path = [], Message = ''Could not resolve.''\<rparr>])
   \<and> GraphQLErrorResponse_Error [\<lparr>Type = [], Path = [], Message = ''Could not resolve.''\<rparr>]
     = ''GraphQL error: Could not resolve.''\<close>
proof -
  let ?body = \<open>''{"errors":[{"message":"Could not resolve."}]}''\<close>
  let ?gq = "newJSONRequest ''POST'' (graphQLEndpoint Map.empty) ''api.github.com'' (Some ''query'')"
  let ?resp = "\<lparr>Response.StatusCode = 200, Header = map_of [], Body = Inr ?body, Request = ?gq\<rparr>"
  let ?gr = "\<lparr>Data = ([]::string), Errors = [\<lparr>Type = [], Path = [], Message = ''Could not resolve.''\<rparr>]\<rparr>"
  have s: "200 \<le> Response.StatusCode ?resp" "Response.StatusCode ?resp < 300"
    "Response.Body ?resp = Inr ?body"
    by simp_all
  have u: "Unmarshal_graphQLResponse exampleLib ?body \<lparr>Data = [], Errors = []\<rparr> = (None, Some ?gr)"
    by (simp add: exampleLib_def)
  have d: "Do exampleLib (DefaultTransport (serve 200 [] (Inr ?body))) ?gq process0
             = (Inr ?resp, process0\<lparr>sent := sent process0 @ [?gq]\<rparr>)"
    by (simp add: Do_serve plain_requests)
  have e: "Errors ?gr \<noteq> []"
    by simp
  have j: "Join (map GraphQLError.Message (Errors ?gr)) [CHR 0x0A] = ''Could not resolve.''"
    by simp
  show ?thesis
    using GraphQL_errors_yield_GraphQLErrorResponse
      [OF s(1,2) exampleLib_requests(3,2) d s(3) u e]
    by (simp add: j)
qed

text \<open>The display form of two errors.\<close>

lemma GraphQLErrorResponse_Error_two:
  "GraphQLErrorResponse_Error [\<lparr>Type = ''NOT_FOUND'', Path = [''repository''], Message = ''a''\<rparr>,
                               \<lparr>Type = [], Path = [], Message = ''b''\<rparr>]
     = ''GraphQL error: a'' @ [CHR 0x0A] @ ''b''"
  by (simp add: GraphQLErrorResponse_Error_def)

text \<open>
  Claim C6, as amended. When GraphQL receives a response with status in [200,300) whose
  body decodes to an envelope, the caller's target is left as the decoder populated it,
  whether the error list is empty or not; with a non-empty error list the call returns the
  \<^verbatim>\<open>GraphQLErrorResponse\<close> as well, so the partial data is in the target next to the error.
\<close>

theorem GraphQL_target_populated_with_errors:
  assumes "200 \<le> Response.StatusCode resp" and "Response.StatusCode resp < 300"
    and "Marshal lib query variables = Inr reqBody"
    and "NewRequest lib ''POST'' (graphQLEndpoint env) = Inr host"
    and "Do lib c (newJSONRequest ''POST'' (graphQLEndpoint env) host (Some reqBody)) st = (Inr resp, st')"
    and "Response.Body resp = Inr body"
    and "Unmarshal_graphQLResponse lib body \<lparr>Data = data, Errors = []\<rparr> = (None, Some gr)"
  shows "GraphQL lib env c query variables data st =
           ((if Errors gr = [] then None else Some (GraphQLErrorResponse (Errors gr)), Data gr), st')"
  using assms
  by (simp add: GraphQL_on_response handleResponse_decoded)

text \<open>The theorem at a run: status 200, data and two errors.\<close>

theorem GraphQL_target_populated_with_errors_witness:
  \<open>fst (GraphQL exampleLib Map.empty
      (DefaultTransport (serve 200 []
         (Inr ''{"data":{"login":"octocat"},"errors":[{"message":"a"},{"message":"b"}]}'')))
      ''query'' () [] process0)
     = (Some (GraphQLErrorResponse [\<lparr>Type = [], Path = [], Message = ''a''\<rparr>,
                                    \<lparr>Type = [], Path = [], Message = ''b''\<rparr>]), ''octocat'')\<close>
proof -
  let ?body = \<open>''{"data":{"login":"octocat"},"errors":[{"message":"a"},{"message":"b"}]}''\<close>
  let ?gq = "newJSONRequest ''POST'' (graphQLEndpoint Map.empty) ''api.github.com'' (Some ''query'')"
  let ?resp = "\<lparr>Response.StatusCode = 200, Header = map_of [], Body = Inr ?body, Request = ?gq\<rparr>"
  let ?gr = "\<lparr>Data = ''octocat'', Errors = [\<lparr>Type = [], Path = [], Message = ''a''\<rparr>,
                                               \<lparr>Type = [], Path = [], Message = ''b''\<rparr>]\<rparr>"
  have s: "200 \<le> Response.StatusCode ?resp" "Response.StatusCode ?resp < 300"
    "Response.Body ?resp = Inr ?body"
    by simp_all
  have u: "Unmarshal_graphQLResponse exampleLib ?body \<lparr>Data = [], Errors = []\<rparr> = (None, Some ?gr)"
    by (simp add: exampleLib_def)
  have d: "Do exampleLib (DefaultTransport (serve 200 [] (Inr ?body))) ?gq process0
             = (Inr ?resp, process0\<lparr>sent := sent process0 @ [?gq]\<rparr>)"
    by (simp add: Do_serve plain_requests)
  show ?thesis
    using GraphQL_target_populated_with_errors
      [OF s(1,2) exampleLib_requests(3,2) d s(3) u]
    by simp
qed

text \<open>
  Claim C6 as stated fails: the response carries data and errors, the call returns the
  error, and the caller's target, empty before the call, holds the decoded data after it.
\<close>

theorem GraphQL_partial_data_counterexample:
  \<open>fst (fst (GraphQL exampleLib Map.empty
      (DefaultTransport (serve 200 []
         (Inr ''{"data":{"login":"octocat"},"errors":[{"message":"a"},{"message":"b"}]}'')))
      ''query'' () [] process0))
     = Some (GraphQLErrorResponse [\<lparr>Type = [], Path = [], Message = ''a''\<rparr>,
                                   \<lparr>Type = [], Path = [], Message = ''b''\<rparr>])
   \<and> snd (fst (GraphQL exampleLib Map.empty
      (DefaultTransport (serve 200 []
         (Inr ''{"data":{"login":"octocat"},"errors":[{"message":"a"},{"message":"b"}]}'')))
      ''query'' () [] process0))
     = ''octocat''
   \<and> ''octocat'' \<noteq> ([]::string)\<close>
  by code_simp

text \<open>
  Claim C8, as amended. When REST receives a response: with status 204 it returns no
  error and leaves the target as it was; with any other status in [200,300) and a body
  that can be read it returns what unmarshalling the whole body into the target gives;
  with a status outside [200,300) it returns an \<^verbatim>\<open>HTTPError\<close> carrying that status and
  leaves the target as it was.
\<close>

theorem REST_result_by_status:
  assumes "NewRequest lib method (restEndpoint env p) = Inr host"
    and "Do lib c (newJSONRequest method (restEndpoint env p) host body) st = (Inr resp, st')"
  shows "(Response.StatusCode resp = 204 \<longrightarrow>
            REST lib env c method p body data st = ((None, data), st'))
       \<and> (200 \<le> Response.StatusCode resp \<and> Response.StatusCode resp < 300 \<and>
          Response.StatusCode resp \<noteq> 204 \<longrightarrow>
            (\<forall>b. Response.Body resp = Inr b \<longrightarrow>
               REST lib env c method p body data st = (Unmarshal_data lib b data, st')))
       \<and> (Response.StatusCode resp < 200 \<or> 300 \<le> Response.StatusCode resp \<longrightarrow>
            (\<exists>e. REST lib env c method p body data st = ((Some (HTTPError e), data), st') \<and>
                 HTTPError.StatusCode e = Response.StatusCode resp))"
proof (intro conjI impI allI)
  assume "Response.StatusCode resp = 204"
  then show "REST lib env c method p body data st = ((None, data), st')"
    by (simp add: REST_on_response [OF assms])
next
  fix b
  assume "200 \<le> Response.StatusCode resp \<and> Response.StatusCode resp < 300 \<and>
          Response.StatusCode resp \<noteq> 204"
    and "Response.Body resp = Inr b"
  then show "REST lib env c method p body data st = (Unmarshal_data lib b data, st')"
    by (simp add: REST_on_response [OF assms] ioutil_ReadAll_def)
next
  assume "Response.StatusCode resp < 200 \<or> 300 \<le> Response.StatusCode resp"
  then have "REST lib env c method p body data st = ((Some (handleHTTPError lib resp), data), st')"
    by (auto simp: REST_on_response [OF assms])
  then show "\<exists>e. REST lib env c method p body data st = ((Some (HTTPError e), data), st') \<and>
                 HTTPError.StatusCode e = Response.StatusCode resp"
    by (simp add: handleHTTPError_eq)
qed

text \<open>The theorem at two runs: status 204, and status 200 with an \<^verbatim>\<open>id\<close> in the body.\<close>

theorem REST_result_by_status_witness:
  \<open>fst (REST exampleLib Map.empty (DefaultTransport (serve 204 [] (Inr [])))
          ''DELETE'' ''user'' None ''before'' process0)
     = (None, ''before'')
   \<and> fst (REST exampleLib Map.empty (DefaultTransport (serve 200 [] (Inr ''{"id":"X"}'')))
          ''GET'' ''user'' None ''before'' process0)
     = (None, ''X'')\<close>
proof -
  let ?dq = "newJSONRequest ''DELETE'' (restEndpoint Map.empty ''user'') ''api.github.com'' None"
  let ?rq = "newJSONRequest ''GET'' (restEndpoint Map.empty ''user'') ''api.github.com'' None"
  let ?body = \<open>''{"id":"X"}''\<close>
  have n: "NewRequest exampleLib ''DELETE'' (restEndpoint Map.empty ''user'') = Inr ''api.github.com''"
    by (simp add: exampleLib_def hostOf_def restEndpoint_def Getenv_def)
  have u: "Unmarshal_data exampleLib ?body ''before'' = (None, ''X'')"
    by (simp add: exampleLib_def)
  have a: "REST exampleLib Map.empty (DefaultTransport (serve 204 [] (Inr []))) ''DELETE'' ''user''
             None ''before'' process0 = ((None, ''before''), process0\<lparr>sent := sent process0 @ [?dq]\<rparr>)"
    using REST_result_by_status [OF n Do_serve [of ?dq 204 "[]" "Inr []" process0]]
    by (simp add: plain_requests)
  have b: "REST exampleLib Map.empty (DefaultTransport (serve 200 [] (Inr ?body))) ''GET'' ''user''
             None ''before'' process0
           = (Unmarshal_data exampleLib ?body ''before'', process0\<lparr>sent := sent process0 @ [?rq]\<rparr>)"
    using REST_result_by_status [OF exampleLib_requests(1) Do_serve [of ?rq 200 "[]" "Inr ?body" process0]]
    by (simp add: plain_requests)
  show ?thesis
    unfolding a b u by simp
qed

text \<open>
  Claim C8 as stated fails at status 299, which is outside [200,299): REST returns no
  error and unmarshals the body.
\<close>

theorem REST_status_299_counterexample:
  \<open>fst (REST exampleLib Map.empty (DefaultTransport (serve 299 [] (Inr ''{"id":"X"}'')))
          ''GET'' ''user'' None ''before'' process0)
     = (None, ''X'')
   \<and> \<not> (200 \<le> (299::int) \<and> (299::int) < 299)\<close>
  by code_simp

text \<open>
  The body \<^verbatim>\<open>null\<close> with a success status: the decoder reports no error and leaves the
  envelope pointer nil, and \<^verbatim>\<open>handleResponse\<close> dereferences it.
\<close>

lemma GraphQL_null_body_panics:
  "fst (GraphQL exampleLib Map.empty (DefaultTransport (serve 200 [] (Inr ''null'')))
          ''query'' () ''before'' process0)
     = (Some (RuntimePanic ''nil pointer dereference''), ''before'')"
  by code_simp

end
